theory Spec2Isabelle
  imports Main "HOL-Library.Char_ord" "HOL-Library.List_Lexorder" "HOL-Library.Sublist"
    "HOL-Library.Multiset"
begin

section \<open>Data model\<close>

text \<open>
  A cell of a pandas column. \<open>NaN\<close> is the float missing value that the spreadsheet
  reader puts into an empty cell, \<open>NA\<close> is \<open>pd.NA\<close>, the value that
  \<open>clean_string_series\<close> writes for an empty response, \<open>Str\<close> is a Python
  string and \<open>Num\<close> an integer. A character is a code point below 256, so
  \<open>CHR 0xA0\<close> is the non-breaking space; floats other than \<open>NaN\<close>, dates and
  code points from 256 on are outside this model.
\<close>

datatype cell = NaN | NA | Str string | Num int

datatype dtype = Object | Numeric

datatype series = Series (dtype: dtype) (vals: "cell list")

text \<open>
  A DataFrame is the list of its labelled columns, in column order. pandas keeps all
  columns at one length; \<open>wf_frame\<close> states that, together with the distinct labels
  that \<open>load_data\<close> guarantees for every frame it returns.
\<close>

type_synonym frame = "(string \<times> series) list"

datatype error = Stopped | DuplicateLabel | KeyError | TypeError | AttributeError

definition labels :: "frame \<Rightarrow> string list" where
  "labels df = map fst df"

definition nrows :: "frame \<Rightarrow> nat" where
  "nrows df = (case df of [] \<Rightarrow> 0 | (l, s) # _ \<Rightarrow> length (vals s))"

definition wf_frame :: "frame \<Rightarrow> bool" where
  "wf_frame df = (distinct (labels df) \<and> list_all (\<lambda>(l, s). length (vals s) = nrows df) df)"

text \<open>Row \<open>i\<close> of a frame, as the list of its labelled cells, and all rows in order.\<close>

definition row_at :: "frame \<Rightarrow> nat \<Rightarrow> (string \<times> cell) list" where
  "row_at df i = map (\<lambda>(l, s). (l, vals s ! i)) df"

definition rows :: "frame \<Rightarrow> (string \<times> cell) list list" where
  "rows df = map (row_at df) [0..<nrows df]"

text \<open>\<open>isna\<close> and \<open>Series.dropna\<close>.\<close>

definition isna :: "cell \<Rightarrow> bool" where
  "isna v = (v = NaN \<or> v = NA)"

definition dropna :: "cell list \<Rightarrow> cell list" where
  "dropna xs = filter (\<lambda>v. \<not> isna v) xs"

section \<open>Filter engine\<close>

text \<open>
  \<open>Series.isin(selected)\<close> is the boolean mask of membership; \<open>df[mask]\<close> keeps the
  positions where the mask is true, in every column, and keeps labels and dtypes.
\<close>

definition isin :: "series \<Rightarrow> cell list \<Rightarrow> bool list" where
  "isin s selected = map (\<lambda>v. v \<in> set selected) (vals s)"

definition kept :: "bool list \<Rightarrow> nat list" where
  "kept bs = filter (\<lambda>i. bs ! i) [0..<length bs]"

definition getitem_mask :: "frame \<Rightarrow> bool list \<Rightarrow> frame" where
  "getitem_mask df bs =
     map (\<lambda>(l, s). (l, Series (dtype s) (map (\<lambda>i. vals s ! i) (kept bs)))) df"

text \<open>
  \<open>apply_filters\<close> (app.py, lines 87 to 100). \<open>selections\<close> is the dictionary in
  the order of \<open>items()\<close>; \<open>options_map\<close> is only read with \<open>get(column, [])\<close>. The local
  \<open>filtered\<close> starts as a copy of \<open>data\<close> and is rebound by each filtering step;
  \<open>filtered[column]\<close> raises \<open>KeyError\<close> when the frame has no such column.
\<close>

definition options_get :: "(string \<Rightarrow> cell list option) \<Rightarrow> string \<Rightarrow> cell list" where
  "options_get options_map column = (case options_map column of Some a \<Rightarrow> a | None \<Rightarrow> [])"

fun apply_filters_loop ::
  "(string \<times> cell list) list \<Rightarrow> (string \<Rightarrow> cell list option) \<Rightarrow> frame \<Rightarrow> error + frame" where
  "apply_filters_loop [] options_map filtered = Inr filtered"
| "apply_filters_loop ((column, selected) # rest) options_map filtered =
     (if selected = [] then apply_filters_loop rest options_map filtered
      else
        let available = options_get options_map column in
        if set selected = set available then apply_filters_loop rest options_map filtered
        else
          (case map_of filtered column of
             None \<Rightarrow> Inl KeyError
           | Some s \<Rightarrow>
               apply_filters_loop rest options_map (getitem_mask filtered (isin s selected))))"

definition apply_filters ::
  "frame \<Rightarrow> (string \<times> cell list) list \<Rightarrow> (string \<Rightarrow> cell list option) \<Rightarrow> error + frame" where
  "apply_filters data selections options_map = apply_filters_loop selections options_map data"

text \<open>
  The options of the sidebar (\<open>main\<close>, lines 231 to 235): for each filter column
  that the data has, \<open>sorted(data[column].dropna().unique())\<close>. \<open>unique\<close> keeps
  the first occurrence of each value; \<open>sorted\<close> compares strings by code point and
  raises \<open>TypeError\<close> when it has to compare a string with a number.
\<close>

definition FILTER_COLUMNS :: "string list" where
  "FILTER_COLUMNS =
     [''Age Range'', ''Sex'', ''Ethnicity'', ''Educational Background'', ''Marital Status'',
      ''Church Affiliation'']"

fun py_unique :: "'a list \<Rightarrow> 'a list" where
  "py_unique [] = []"
| "py_unique (x # xs) = x # filter (\<lambda>y. y \<noteq> x) (py_unique xs)"

fun the_Str :: "cell \<Rightarrow> string" where
  "the_Str (Str s) = s"
| "the_Str _ = []"

fun the_Num :: "cell \<Rightarrow> int" where
  "the_Num (Num n) = n"
| "the_Num _ = 0"

definition py_sorted :: "cell list \<Rightarrow> error + cell list" where
  "py_sorted xs =
     (if list_all (\<lambda>v. case v of Str _ \<Rightarrow> True | _ \<Rightarrow> False) xs
        then Inr (map Str (sort (map the_Str xs)))
      else if list_all (\<lambda>v. case v of Num _ \<Rightarrow> True | _ \<Rightarrow> False) xs
        then Inr (map Num (sort (map the_Num xs)))
      else Inl TypeError)"

fun main_options_map ::
  "string list \<Rightarrow> frame \<Rightarrow> (string \<Rightarrow> cell list option) \<Rightarrow> error + (string \<Rightarrow> cell list option)" where
  "main_options_map [] data options_map = Inr options_map"
| "main_options_map (column # rest) data options_map =
     (case map_of data column of
        None \<Rightarrow> main_options_map rest data options_map
      | Some s \<Rightarrow>
          (case py_sorted (py_unique (dropna (vals s))) of
             Inl e \<Rightarrow> Inl e
           | Inr options \<Rightarrow> main_options_map rest data (options_map(column \<mapsto> options))))"

text \<open>
  The observed domain of a column: the set of its non-missing values (empty for a
  column the frame does not have).
\<close>

definition observed :: "frame \<Rightarrow> string \<Rightarrow> cell set" where
  "observed data c =
     (case map_of data c of None \<Rightarrow> {} | Some s \<Rightarrow> set (dropna (vals s)))"

text \<open>
  What one entry of the selection asks of a row of the data: nothing when the loop
  skips the entry (an empty list, or the same set as the options of the column), and
  otherwise that the row's value for the column is one of the selected values.
\<close>

definition passes :: "(string \<Rightarrow> cell list option) \<Rightarrow> (string \<times> cell) list \<Rightarrow> string \<times> cell list \<Rightarrow> bool" where
  "passes options_map r e =
     (snd e = [] \<or>
      set (snd e) = set (options_get options_map (fst e)) \<or>
      (case map_of r (fst e) of None \<Rightarrow> False | Some v \<Rightarrow> v \<in> set (snd e)))"

text \<open>
  The example of the specification: five respondents, the fourth without an age range.
\<close>

definition example_ages :: frame where
  "example_ages =
     [(''ID'', Series Numeric [Num 1, Num 2, Num 3, Num 4, Num 5]),
      (''Age Range'',
         Series Object [Str ''18-24'', Str ''25-34'', Str ''18-24'', NA, Str ''25-34''])]"

section \<open>Normalisation and redaction\<close>

text \<open>
  The configuration of app.py (lines 14 to 36). Two keys of the rename table end in a
  line feed and one in a non-breaking space.
\<close>

definition RENAME_MAP :: "(string \<times> string) list" where
  "RENAME_MAP =
     [(''Start time'', ''Start Time''),
      (''Completion time'', ''Completion Time''),
      (''Email Address'', ''Secondary Email''),
      (''What is your Educational Background'' @ [CHR 0x0A], ''Educational Background''),
      (''What is your current church affiliation'' @ [CHR 0xA0], ''Church Affiliation''),
      (''How frequently do you attend church?'' @ [CHR 0x0A], ''Attendance Frequency''),
      (''How do you attend church'', ''Attendance Mode''),
      (''How much time do you spend per day on media (Social Media, Streaming Platforms, etc)'',
         ''Daily Media Time''),
      (''Which platforms do you use?'', ''Media Platforms''),
      (''My engagement with media has made my faith:'', ''Media Impact on Faith''),
      (''How regular are you with personal devotion (Bible Reading/Prayer)'',
         ''Personal Devotion Regularity''),
      (''In what way do you contribute to your church (select all that apply)'',
         ''Church Contribution'')]"

definition SENSITIVE_COLUMNS :: "string list" where
  "SENSITIVE_COLUMNS =
     [''Email'', ''Name'', ''First Name'', ''Last Name'', ''Secondary Email'', ''Phone Number'']"

text \<open>
  Python strings. \<open>str.strip()\<close> removes the white space of \<open>str.isspace\<close> at both
  ends; below code point 256 that is the characters listed here. \<open>str.replace\<close> is
  only used with one-character arguments.
\<close>

definition py_isspace :: "char \<Rightarrow> bool" where
  "py_isspace c =
     (c \<in> set [CHR 0x09, CHR 0x0A, CHR 0x0B, CHR 0x0C, CHR 0x0D, CHR 0x1C, CHR 0x1D, CHR 0x1E,
               CHR 0x1F, CHR 0x20, CHR 0x85, CHR 0xA0])"

definition py_strip :: "string \<Rightarrow> string" where
  "py_strip s = rev (dropWhile py_isspace (rev (dropWhile py_isspace s)))"

definition str_replace :: "char \<Rightarrow> char \<Rightarrow> string \<Rightarrow> string" where
  "str_replace old new s = map (\<lambda>c. if c = old then new else c) s"

definition trimmed :: "string \<Rightarrow> bool" where
  "trimmed t = (t = [] \<or> (\<not> py_isspace (hd t) \<and> \<not> py_isspace (last t)))"

text \<open>\<open>str\<close> of an integer: its decimal digits, after a minus sign when negative.\<close>

fun str_nat :: "nat \<Rightarrow> string" where
  "str_nat n =
     (if n < 10 then [''0123456789'' ! n]
      else str_nat (n div 10) @ [''0123456789'' ! (n mod 10)])"

declare str_nat.simps [simp del]

definition str_int :: "int \<Rightarrow> string" where
  "str_int i = (if i < 0 then CHR ''-'' # str_nat (nat (- i)) else str_nat (nat i))"

text \<open>
  \<open>Series.astype(str)\<close> on an object column turns every element into its \<open>str\<close>,
  the missing ones too: \<open>NaN\<close> becomes \<open>nan\<close> (which is why the source maps the string
  \<open>nan\<close> back to missing) and \<open>pd.NA\<close> becomes \<open><NA>\<close>.
\<close>

definition astype_str :: "cell \<Rightarrow> string" where
  "astype_str v =
     (case v of NaN \<Rightarrow> ''nan'' | NA \<Rightarrow> ''<NA>'' | Str s \<Rightarrow> s | Num n \<Rightarrow> str_int n)"

text \<open>\<open>clean_string_series\<close> (app.py, lines 53 to 64).\<close>

definition clean_string_series :: "series \<Rightarrow> series" where
  "clean_string_series s =
     (if dtype s \<noteq> Object then s
      else
        let cleaned =
              map (\<lambda>v. py_strip (str_replace (CHR 0xA0) (CHR 0x20)
                          (str_replace (CHR 0x0A) (CHR 0x20) (astype_str v)))) (vals s)
        in Series Object (map (\<lambda>t. if t = ''nan'' \<or> t = [] then NA else Str t) cleaned))"

text \<open>
  \<open>load_data\<close> (app.py, lines 67 to 84). The argument is the frame that
  \<open>pd.read_excel\<close> returns, or \<open>None\<close> when the path does not exist (then
  \<open>st.stop()\<close> ends the run). The first three steps are the normalisation of the
  specification: rename the labels, strip them, clean every column. When two labels are
  equal after that, \<open>df[column]\<close> is a frame and not a series, and reading its
  \<open>dtype\<close> raises. The last step drops the sensitive columns that are present.
\<close>

definition rename_label :: "string \<Rightarrow> string" where
  "rename_label l = (case map_of RENAME_MAP l of Some n \<Rightarrow> n | None \<Rightarrow> l)"

definition normalize :: "frame \<Rightarrow> error + frame" where
  "normalize df0 =
     (let df1 = map (\<lambda>(l, s). (rename_label l, s)) df0;
          df2 = map (\<lambda>(l, s). (py_strip l, s)) df1
      in if \<not> distinct (labels df2) then Inl DuplicateLabel
         else Inr (map (\<lambda>(l, s). (l, clean_string_series s)) df2))"

definition redact :: "frame \<Rightarrow> frame" where
  "redact df =
     (let drop_cols = filter (\<lambda>col. col \<in> set (labels df)) SENSITIVE_COLUMNS
      in if drop_cols \<noteq> [] then filter (\<lambda>(l, s). l \<notin> set drop_cols) df else df)"

definition load_data :: "frame option \<Rightarrow> error + frame" where
  "load_data src =
     (case src of
        None \<Rightarrow> Inl Stopped
      | Some df0 \<Rightarrow> (case normalize df0 of Inl e \<Rightarrow> Inl e | Inr df \<Rightarrow> Inr (redact df)))"

text \<open>
  A text cell of the canonical dataset: the missing value \<open>pd.NA\<close>, or a string that
  is trimmed, not empty and not \<open>nan\<close>.
\<close>

definition canonical_cell :: "cell \<Rightarrow> bool" where
  "canonical_cell v =
     (case v of
        NA \<Rightarrow> True
      | Str t \<Rightarrow> t \<noteq> [] \<and> t \<noteq> ''nan'' \<and> trimmed t
      | _ \<Rightarrow> False)"

text \<open>
  A string as the cleaning leaves it: not empty, not \<open>nan\<close>, trimmed, with no line
  feed and no non-breaking space.
\<close>

definition clean_text :: "string \<Rightarrow> bool" where
  "clean_text t =
     (t \<noteq> [] \<and> t \<noteq> ''nan'' \<and> trimmed t \<and> CHR 0x0A \<notin> set t \<and> CHR 0xA0 \<notin> set t)"

text \<open>A raw export with a sensitive column, padded labels and empty responses.\<close>

definition example_raw :: frame where
  "example_raw =
     [(''ID'', Series Numeric [Num 1, Num 2, Num 3]),
      (''Email Address'', Series Object [Str ''a@x.org'', NaN, Str ''c@x.org'']),
      (''Sex '', Series Object [Str '' Female'', Str ''nan'', Str ''  '']),
      (''Which platforms do you use?'',
         Series Object [Str (''Instagram;'' @ [CHR 0x0A] @ ''YouTube''), NaN, Num 7])]"

text \<open>A raw export with no empty response, and one whose first label ends in a space.\<close>

definition example_complete :: frame where
  "example_complete =
     [(''ID'', Series Numeric [Num 1, Num 2]),
      (''Sex '', Series Object [Str '' Female'', Str ''Male''])]"

definition example_padded :: frame where
  "example_padded = [(''Start time '', Series Object [Str ''08:00''])]"


section \<open>Aggregation and summaries\<close>

text \<open>
  \<open>Series.replace("", pd.NA)\<close>.
\<close>

definition replace_empty :: "cell list \<Rightarrow> cell list" where
  "replace_empty xs = map (\<lambda>v. if v = Str [] then NA else v) xs"

text \<open>
  \<open>Series.value_counts()\<close> drops the missing values, counts the others with a hash
  table whose keys stay in the order in which they were first seen (\<open>tally\<close>), and
  sorts that table with \<open>sort_values(ascending=False)\<close>. The sort is pandas' and not
  this program's: pandas documents that the result is in descending order of the counts
  and says nothing about entries with equal counts. It is therefore the parameter
  \<open>sort_values\<close> of the model, and \<open>sort_values_ok\<close> is what pandas documents of it.
  \<open>sort_values_stable\<close> is one such sort, the one that pandas runs when the
  underlying sort is stable: reverse, sort in ascending order, reverse.
\<close>

type_synonym counts = "(cell \<times> nat) list"

definition tally :: "cell list \<Rightarrow> counts" where
  "tally xs = map (\<lambda>k. (k, count_list xs k)) (py_unique xs)"

definition value_counts :: "(counts \<Rightarrow> counts) \<Rightarrow> cell list \<Rightarrow> counts" where
  "value_counts sort_values xs = sort_values (tally (dropna xs))"

definition descending :: "counts \<Rightarrow> bool" where
  "descending t = sorted_wrt (\<lambda>a b. snd b \<le> snd a) t"

definition sort_values_ok :: "(counts \<Rightarrow> counts) \<Rightarrow> bool" where
  "sort_values_ok sort_values = (\<forall>t. mset (sort_values t) = mset t \<and> descending (sort_values t))"

definition sort_values_stable :: "counts \<Rightarrow> counts" where
  "sort_values_stable t = rev (sort_key snd (rev t))"

text \<open>
  The local \<open>counts\<close> of \<open>single_select_chart\<close> (app.py, lines 103 to 115),
  \<open>single_select_pie_chart\<close> and \<open>summarize_category\<close> (lines 190 to 201), the same
  expression in the three: \<open>dropna().replace("", pd.NA).dropna().value_counts()\<close>.
\<close>

definition category_counts :: "(counts \<Rightarrow> counts) \<Rightarrow> series \<Rightarrow> counts" where
  "category_counts sort_values data =
     value_counts sort_values (dropna (replace_empty (dropna (vals data))))"

text \<open>
  \<open>single_select_chart\<close>: \<open>None\<close> is the branch that shows the notice and draws
  nothing, \<open>Some counts\<close> is the table that goes to the chart.
\<close>

definition single_select_chart :: "(counts \<Rightarrow> counts) \<Rightarrow> series \<Rightarrow> counts option" where
  "single_select_chart sort_values data =
     (let counts = category_counts sort_values data
      in if counts = [] then None else Some counts)"

text \<open>
  The f-string of the summaries writes the label with \<open>str\<close>; a label is never missing,
  since missing values are dropped before they are counted.
\<close>

definition label_text :: "cell \<Rightarrow> string" where
  "label_text v = astype_str v"

definition summarize_category :: "(counts \<Rightarrow> counts) \<Rightarrow> series \<Rightarrow> string" where
  "summarize_category sort_values series =
     (let counts = category_counts sort_values series
      in if counts = [] then ''N/A''
         else
           let top_label = fst (hd counts);
               top_count = snd (hd counts)
           in label_text top_label @ '' ('' @ str_nat top_count @ '')'')"

text \<open>
  The \<open>.str\<close> accessor checks the series before any string method runs: the dtype
  has to be \<open>object\<close> and the values that are not missing have to be none at all or to
  include a string; otherwise it raises \<open>AttributeError\<close>. Its methods give \<open>NaN\<close>
  for an element that is not a string.
\<close>

definition is_text :: "cell \<Rightarrow> bool" where
  "is_text v = (case v of Str _ \<Rightarrow> True | _ \<Rightarrow> False)"

definition str_accessor :: "series \<Rightarrow> error + cell list" where
  "str_accessor s =
     (let present = dropna (vals s)
      in if dtype s = Object \<and> (present = [] \<or> list_ex is_text present) then Inr (vals s)
         else Inl AttributeError)"

text \<open>
  Python's \<open>str.split(sep)\<close> with a separator of one character: one more piece than
  there are separators, empty pieces included.
\<close>

fun py_split :: "char \<Rightarrow> string \<Rightarrow> string list" where
  "py_split d [] = [[]]"
| "py_split d (c # cs) =
     (if c = d then [] # py_split d cs
      else (case py_split d cs of [] \<Rightarrow> [[c]] | t # ts \<Rightarrow> (c # t) # ts))"

text \<open>
  \<open>.str.split(";")\<close> gives a list of pieces for a string, \<open>explode()\<close> turns every
  piece into an element of its own (and an empty list into \<open>NaN\<close>), \<open>.str.strip()\<close>
  trims each piece.
\<close>

definition str_split :: "char \<Rightarrow> cell list \<Rightarrow> string list option list" where
  "str_split d xs = map (\<lambda>v. case v of Str t \<Rightarrow> Some (py_split d t) | _ \<Rightarrow> None) xs"

definition explode :: "string list option list \<Rightarrow> cell list" where
  "explode xs =
     concat (map (\<lambda>e. case e of
                         Some ts \<Rightarrow> (if ts = [] then [NaN] else map Str ts)
                       | None \<Rightarrow> [NaN]) xs)"

definition str_strip :: "cell list \<Rightarrow> cell list" where
  "str_strip xs = map (\<lambda>v. case v of Str t \<Rightarrow> Str (py_strip t) | _ \<Rightarrow> NaN) xs"

text \<open>
  The local \<open>exploded\<close> of \<open>multivalue_chart\<close> (app.py, lines 162 to 176) and
  \<open>summarize_multivalue\<close> (lines 204 to 218), the same expression in both:
  \<open>dropna().str.split(";").explode().str.strip().replace("", pd.NA).dropna()\<close>.
\<close>

definition exploded :: "series \<Rightarrow> error + cell list" where
  "exploded data =
     (case str_accessor (Series (dtype data) (dropna (vals data))) of
        Inl e \<Rightarrow> Inl e
      | Inr xs \<Rightarrow>
          (case str_accessor (Series Object (explode (str_split (CHR '';'') xs))) of
             Inl e \<Rightarrow> Inl e
           | Inr ys \<Rightarrow> Inr (dropna (replace_empty (str_strip ys)))))"

definition multivalue_chart :: "(counts \<Rightarrow> counts) \<Rightarrow> series \<Rightarrow> error + counts option" where
  "multivalue_chart sort_values data =
     (case exploded data of
        Inl e \<Rightarrow> Inl e
      | Inr ex \<Rightarrow> if ex = [] then Inr None else Inr (Some (value_counts sort_values ex)))"

definition summarize_multivalue :: "(counts \<Rightarrow> counts) \<Rightarrow> series \<Rightarrow> error + string" where
  "summarize_multivalue sort_values series =
     (case exploded series of
        Inl e \<Rightarrow> Inl e
      | Inr ex \<Rightarrow>
          if ex = [] then Inr ''N/A''
          else
            let counts = value_counts sort_values ex;
                top_label = fst (hd counts);
                top_count = snd (hd counts)
            in Inr (label_text top_label @ '' ('' @ str_nat top_count @ '')''))"

text \<open>
  The multi-valued aggregate in the words of the specification: split every cell that
  is not missing on the semicolon, trim each piece, discard the empty ones, and pool the
  pieces of all rows.
\<close>

definition tokens_of :: "cell \<Rightarrow> string list" where
  "tokens_of v =
     (case v of
        Str t \<Rightarrow> filter (\<lambda>x. x \<noteq> []) (map py_strip (py_split (CHR '';'') t))
      | _ \<Rightarrow> [])"

definition token_pool :: "cell list \<Rightarrow> string list" where
  "token_pool xs = concat (map tokens_of xs)"

text \<open>The five rows of the example, and a column of the export that nobody answered.\<close>

definition example_media :: series where
  "example_media =
     Series Object [Str ''Instagram; YouTube'', Str ''YouTube'', NA, Str ''Instagram'',
                    Str ''TikTok; YouTube'']"

definition example_blank :: frame where
  "example_blank =
     [(''ID'', Series Numeric [Num 1, Num 2]),
      (''Which platforms do you use?'', Series Numeric [NaN, NaN])]"

section \<open>Properties of the filter engine\<close>

lemma set_py_unique: "set (py_unique xs) = set xs"
  by (induction xs) auto

lemma set_py_sorted: "py_sorted xs = Inr ys \<Longrightarrow> set ys = set xs"
proof -
  assume a: "py_sorted xs = Inr ys"
  have s: "list_all (\<lambda>v. case v of Str _ \<Rightarrow> True | _ \<Rightarrow> False) xs \<Longrightarrow>
      (\<lambda>x. Str (the_Str x)) ` set xs = set xs"
    by (induction xs) (auto split: cell.splits)
  have n: "list_all (\<lambda>v. case v of Num _ \<Rightarrow> True | _ \<Rightarrow> False) xs \<Longrightarrow>
      (\<lambda>x. Num (the_Num x)) ` set xs = set xs"
    by (induction xs) (auto split: cell.splits)
  show ?thesis
  proof (cases "list_all (\<lambda>v. case v of Str _ \<Rightarrow> True | _ \<Rightarrow> False) xs")
    case True
    then have "ys = map Str (sort (map the_Str xs))" using a by (simp add: py_sorted_def)
    then show ?thesis using s [OF True] by (simp add: image_image)
  next
    case False
    show ?thesis
    proof (cases "list_all (\<lambda>v. case v of Num _ \<Rightarrow> True | _ \<Rightarrow> False) xs")
      case True
      then have "ys = map Num (sort (map the_Num xs))" using a False by (simp add: py_sorted_def)
      then show ?thesis using n [OF True] by (simp add: image_image)
    next
      case nn: False
      then show ?thesis using a False by (simp add: py_sorted_def)
    qed
  qed
qed

lemma main_options_map_observed:
  "main_options_map cols data om0 = Inr om \<Longrightarrow>
     (\<forall>c. (\<exists>opts. om0 c = Some opts \<and> set opts = observed data c) \<longrightarrow>
            (\<exists>opts. om c = Some opts \<and> set opts = observed data c)) \<and>
     (\<forall>c. c \<in> set cols \<and> map_of data c \<noteq> None \<longrightarrow>
            (\<exists>opts. om c = Some opts \<and> set opts = observed data c))"
proof (induction cols arbitrary: om0)
  case Nil
  then show ?case by simp
next
  case (Cons column rest)
  show ?case
  proof (cases "map_of data column")
    case None
    then have "main_options_map rest data om0 = Inr om" using Cons.prems by simp
    from Cons.IH [OF this] None show ?thesis by auto
  next
    case (Some s)
    then obtain options where o: "py_sorted (py_unique (dropna (vals s))) = Inr options"
      and r: "main_options_map rest data (om0(column \<mapsto> options)) = Inr om"
      using Cons.prems by (auto split: sum.splits)
    have so: "set options = observed data column"
      using set_py_sorted [OF o] Some by (simp add: observed_def set_py_unique)
    note ih = Cons.IH [OF r]
    have g: "\<exists>opts. (om0(column \<mapsto> options)) column = Some opts \<and> set opts = observed data column"
      using so by simp
    have keep: "\<And>c. (\<exists>opts. om0 c = Some opts \<and> set opts = observed data c) \<Longrightarrow>
       (\<exists>opts. (om0(column \<mapsto> options)) c = Some opts \<and> set opts = observed data c)"
      using so by auto
    show ?thesis
    proof (intro conjI allI impI)
      fix c assume "\<exists>opts. om0 c = Some opts \<and> set opts = observed data c"
      from keep [OF this] ih show "\<exists>opts. om c = Some opts \<and> set opts = observed data c" by blast
    next
      fix c assume c: "c \<in> set (column # rest) \<and> map_of data c \<noteq> None"
      show "\<exists>opts. om c = Some opts \<and> set opts = observed data c"
      proof (cases "c = column")
        case True
        then show ?thesis using g ih by blast
      next
        case False
        then show ?thesis using c ih by auto
      qed
    qed
  qed
qed

lemma apply_filters_loop_skip:
  "(\<And>c sel. (c, sel) \<in> set selections \<Longrightarrow>
      sel = [] \<or> set sel = set (options_get om c)) \<Longrightarrow>
   apply_filters_loop selections om filtered = Inr filtered"
proof (induction selections)
  case Nil
  then show ?case by simp
next
  case (Cons p rest)
  obtain c sel where p: "p = (c, sel)" by (cases p)
  have r: "apply_filters_loop rest om filtered = Inr filtered"
    using Cons by auto
  have "sel = [] \<or> set sel = set (options_get om c)"
    using Cons.prems [of c sel] p by simp
  then show ?case using r p by (auto simp: Let_def)
qed

lemma apply_filters_loop_drop_empty:
  "apply_filters_loop (xs @ (c, []) # ys) om filtered = apply_filters_loop (xs @ ys) om filtered"
proof (induction xs arbitrary: filtered)
  case Nil
  show ?case by simp
next
  case (Cons p xs)
  obtain c' sel where p: "p = (c', sel)" by (cases p)
  show ?case using Cons.IH p by (simp add: Let_def split: option.splits)
qed

subsection \<open>Rows of a filtered frame\<close>

lemma labels_getitem_mask: "labels (getitem_mask df bs) = labels df"
  by (induction df) (auto simp: labels_def getitem_mask_def)

lemma schema_getitem_mask:
  "map (\<lambda>(l, s). (l, dtype s)) (getitem_mask df bs) = map (\<lambda>(l, s). (l, dtype s)) df"
  by (induction df) (auto simp: getitem_mask_def)

lemma nrows_getitem_mask: "df \<noteq> [] \<Longrightarrow> nrows (getitem_mask df bs) = length (kept bs)"
  by (cases df) (auto simp: nrows_def getitem_mask_def)

lemma wf_getitem_mask: "wf_frame df \<Longrightarrow> wf_frame (getitem_mask df bs)"
proof (cases "df = []")
  case True
  then show ?thesis by (simp add: getitem_mask_def wf_frame_def labels_def nrows_def)
next
  case False
  assume "wf_frame df"
  then have d: "distinct (labels (getitem_mask df bs))"
    by (simp add: labels_getitem_mask wf_frame_def)
  have "list_all (\<lambda>(l, s). length (vals s) = length (kept bs)) (getitem_mask df bs)"
    by (auto simp: getitem_mask_def list_all_iff)
  then show ?thesis using d nrows_getitem_mask [OF False, of bs] by (simp add: wf_frame_def)
qed

lemma map_of_getitem_mask:
  "map_of (getitem_mask df bs) c =
     map_option (\<lambda>s. Series (dtype s) (map (\<lambda>i. vals s ! i) (kept bs))) (map_of df c)"
  by (induction df) (auto simp: getitem_mask_def)

lemma map_of_row_at: "map_of df c = Some s \<Longrightarrow> map_of (row_at df i) c = Some (vals s ! i)"
  by (induction df) (auto simp: row_at_def split: if_splits)

lemma row_at_getitem_mask:
  "j < length (kept bs) \<Longrightarrow> row_at (getitem_mask df bs) j = row_at df (kept bs ! j)"
  by (induction df) (auto simp: row_at_def getitem_mask_def)

lemma rows_getitem_mask: "df \<noteq> [] \<Longrightarrow> rows (getitem_mask df bs) = map (row_at df) (kept bs)"
proof -
  assume ne: "df \<noteq> []"
  have "rows (getitem_mask df bs) = map (row_at (getitem_mask df bs)) [0..<length (kept bs)]"
    using nrows_getitem_mask [OF ne] by (simp add: rows_def)
  also have "\<dots> = map (\<lambda>j. row_at df (kept bs ! j)) [0..<length (kept bs)]"
    by (rule map_cong) (auto simp: row_at_getitem_mask)
  also have "\<dots> = map (row_at df) (map (\<lambda>j. kept bs ! j) [0..<length (kept bs)])"
    by simp
  also have "\<dots> = map (row_at df) (kept bs)"
    by (simp only: map_nth)
  finally show ?thesis .
qed

lemma kept_isin:
  "kept (isin s sel) = filter (\<lambda>i. vals s ! i \<in> set sel) [0..<length (vals s)]"
  unfolding kept_def isin_def by (rule filter_cong) auto

lemma length_column: "wf_frame df \<Longrightarrow> map_of df c = Some s \<Longrightarrow> length (vals s) = nrows df"
proof -
  assume w: "wf_frame df" and m: "map_of df c = Some s"
  from m have "(c, s) \<in> set df" by (rule map_of_SomeD)
  then show ?thesis using w by (auto simp: wf_frame_def list_all_iff)
qed

lemma rows_isin:
  assumes w: "wf_frame df" and m: "map_of df c = Some s"
  shows "rows (getitem_mask df (isin s sel)) =
         filter (\<lambda>r. \<exists>v. map_of r c = Some v \<and> v \<in> set sel) (rows df)"
proof -
  from m have ne: "df \<noteq> []" by auto
  have "rows (getitem_mask df (isin s sel)) =
        map (row_at df) (filter (\<lambda>i. vals s ! i \<in> set sel) [0..<nrows df])"
    using rows_getitem_mask [OF ne] kept_isin length_column [OF w m] by simp
  also have "\<dots> = filter (\<lambda>r. \<exists>v. map_of r c = Some v \<and> v \<in> set sel) (rows df)"
    by (simp add: rows_def filter_map comp_def map_of_row_at [OF m])
  finally show ?thesis .
qed

text \<open>
  What one entry of the selection asks of a row: nothing when the entry is skipped, and
  otherwise that the row's value for the column is among the selected values.
\<close>

lemma apply_filters_loop_rows:
  "wf_frame df \<Longrightarrow> apply_filters_loop sels om df = Inr f \<Longrightarrow>
     wf_frame f \<and>
     map (\<lambda>(l, s). (l, dtype s)) f = map (\<lambda>(l, s). (l, dtype s)) df \<and>
     rows f = filter (\<lambda>r. list_all (passes om r) sels) (rows df)"
proof (induction sels arbitrary: df)
  case Nil
  then show ?case by simp
next
  case (Cons p rest)
  obtain c sel where p: "p = (c, sel)" by (cases p)
  show ?case
  proof (cases "sel = [] \<or> set sel = set (options_get om c)")
    case True
    then have "apply_filters_loop rest om df = Inr f"
      using Cons.prems(2) p by (auto simp: Let_def split: if_splits)
    from Cons.IH [OF Cons.prems(1) this] True p show ?thesis
      by (auto simp: passes_def)
  next
    case False
    then obtain s where m: "map_of df c = Some s"
      and r: "apply_filters_loop rest om (getitem_mask df (isin s sel)) = Inr f"
      using Cons.prems(2) p by (auto simp: Let_def split: option.splits if_splits)
    note ih = Cons.IH [OF wf_getitem_mask [OF Cons.prems(1)] r]
    have "rows f = filter (\<lambda>r. list_all (passes om r) rest)
            (filter (\<lambda>r. \<exists>v. map_of r c = Some v \<and> v \<in> set sel) (rows df))"
      using ih rows_isin [OF Cons.prems(1) m] by simp
    also have "\<dots> = filter (\<lambda>r. list_all (passes om r) (p # rest)) (rows df)"
      using False p by (auto simp: passes_def intro!: filter_cong split: option.splits)
    finally show ?thesis using ih by (simp add: schema_getitem_mask)
  qed
qed

lemma apply_filters_loop_returns:
  "set (map fst sels) \<subseteq> set (labels df) \<Longrightarrow> \<exists>f. apply_filters_loop sels om df = Inr f"
proof (induction sels arbitrary: df)
  case Nil
  then show ?case by simp
next
  case (Cons p rest)
  obtain c sel where p: "p = (c, sel)" by (cases p)
  have here: "c \<in> set (labels df)" and pr: "set (map fst rest) \<subseteq> set (labels df)"
    using Cons.prems p by simp_all
  have "map_of df c \<noteq> None"
    using here by (simp add: labels_def map_of_eq_None_iff)
  then obtain s where m: "map_of df c = Some s" by blast
  have r1: "\<exists>f. apply_filters_loop rest om df = Inr f"
    by (rule Cons.IH) (rule pr)
  have r2: "\<exists>f. apply_filters_loop rest om (getitem_mask df (isin s sel)) = Inr f"
    by (rule Cons.IH) (simp only: labels_getitem_mask pr)
  show ?case
  proof (cases "sel = [] \<or> set sel = set (options_get om c)")
    case True
    then show ?thesis using p r1 by (auto simp: Let_def)
  next
    case False
    then show ?thesis using p m r2 by (simp add: Let_def)
  qed
qed

subsection \<open>The claims about the filter engine\<close>

text \<open>
  C1, as amended. An empty list of selected values does not exclude every row: the loop
  skips the entry (\<open>if not selected: continue\<close>), so the result is the one that the
  selection without that entry gives.
\<close>

theorem apply_filters_empty_selection_skipped:
  "apply_filters data (xs @ (c, []) # ys) options_map = apply_filters data (xs @ ys) options_map"
  unfolding apply_filters_def by (rule apply_filters_loop_drop_empty)

theorem apply_filters_empty_selection_skipped_witness:
  "apply_filters example_ages ([] @ (''Age Range'', []) # []) Map.empty =
   apply_filters example_ages ([] @ []) Map.empty"
  by (rule apply_filters_empty_selection_skipped)

text \<open>
  C1, as the specification states it, fails: with an empty selection for the age range
  all five rows of the example come back.
\<close>

theorem apply_filters_empty_selection_counterexample:
  "(''Age Range'', []) \<in> set [(''Age Range'', [] :: cell list)] \<and>
   apply_filters example_ages [(''Age Range'', [])] Map.empty = Inr example_ages \<and>
   nrows example_ages = 5"
  by (simp add: apply_filters_def example_ages_def nrows_def)

text \<open>
  C3. When the options are the ones the sidebar computes from the data, and every entry
  of the selection is for a filter column and selects exactly the non-missing values
  observed in that column, \<open>apply_filters\<close> returns the data as it is, rows with a
  missing value included.
\<close>

theorem apply_filters_full_domain_noop:
  assumes "main_options_map FILTER_COLUMNS data Map.empty = Inr options_map"
    and "\<forall>(c, sel) \<in> set selections. c \<in> set FILTER_COLUMNS \<and> set sel = observed data c"
  shows "apply_filters data selections options_map = Inr data"
  unfolding apply_filters_def
proof (rule apply_filters_loop_skip)
  fix c sel
  assume e: "(c, sel) \<in> set selections"
  then have fc: "c \<in> set FILTER_COLUMNS" and s: "set sel = observed data c"
    using assms(2) by auto
  show "sel = [] \<or> set sel = set (options_get options_map c)"
  proof (cases "map_of data c")
    case None
    then show ?thesis using s by (simp add: observed_def)
  next
    case (Some col)
    then have "\<exists>opts. options_map c = Some opts \<and> set opts = observed data c"
      using main_options_map_observed [OF assms(1)] fc by auto
    then show ?thesis using s by (auto simp: options_get_def)
  qed
qed

theorem apply_filters_full_domain_noop_witness:
  "\<exists>om. main_options_map FILTER_COLUMNS example_ages Map.empty = Inr om \<and>
      ''Age Range'' \<in> set FILTER_COLUMNS \<and>
      set [Str ''25-34'', Str ''18-24''] = observed example_ages ''Age Range'' \<and>
      apply_filters example_ages [(''Age Range'', [Str ''25-34'', Str ''18-24''])] om =
        Inr example_ages \<and>
      nrows example_ages = 5"
proof -
  have a: "main_options_map FILTER_COLUMNS example_ages Map.empty =
      Inr [''Age Range'' \<mapsto> [Str ''18-24'', Str ''25-34'']]"
    by (simp add: FILTER_COLUMNS_def example_ages_def py_sorted_def dropna_def isna_def)
  have f: "''Age Range'' \<in> set FILTER_COLUMNS"
    by (simp add: FILTER_COLUMNS_def)
  have b: "set [Str ''25-34'', Str ''18-24''] = observed example_ages ''Age Range''"
    by (auto simp add: observed_def example_ages_def dropna_def isna_def)
  have c: "\<forall>(c, sel) \<in> set [(''Age Range'', [Str ''25-34'', Str ''18-24''])].
      c \<in> set FILTER_COLUMNS \<and> set sel = observed example_ages c"
    using f b by simp
  have n: "nrows example_ages = 5"
    by (simp add: nrows_def example_ages_def)
  from apply_filters_full_domain_noop [OF a c] a f b n show ?thesis by blast
qed

lemma rows_example: "rows example_ages =
   [[(''ID'', Num 1), (''Age Range'', Str ''18-24'')],
    [(''ID'', Num 2), (''Age Range'', Str ''25-34'')],
    [(''ID'', Num 3), (''Age Range'', Str ''18-24'')],
    [(''ID'', Num 4), (''Age Range'', NA)],
    [(''ID'', Num 5), (''Age Range'', Str ''25-34'')]]"
  by (simp add: rows_def nrows_def example_ages_def row_at_def upt_rec)

text \<open>
  C4. On a frame with distinct labels and columns of one length, and a selection whose
  columns the frame has, \<open>apply_filters\<close> returns a frame whose rows are exactly the
  rows of the data that pass every entry of the selection: for an entry whose list is
  neither empty nor the set of the column's options, the row's value for that column is
  one of the selected values. When the selected values are not missing values, no row
  that is kept has a missing value in that column. The witness is the example of the
  specification: selecting \<open>18-24\<close> keeps the first and the third respondent.
\<close>

theorem apply_filters_keeps_members:
  assumes "wf_frame data" and "set (map fst selections) \<subseteq> set (labels data)"
  shows "\<exists>f. apply_filters data selections options_map = Inr f \<and>
           rows f = filter (\<lambda>r. list_all (passes options_map r) selections) (rows data) \<and>
           (\<forall>r \<in> set (rows f). \<forall>(c, sel) \<in> set selections.
              sel \<noteq> [] \<and> set sel \<noteq> set (options_get options_map c) \<and> \<not> list_ex isna sel \<longrightarrow>
              (\<exists>v. map_of r c = Some v \<and> v \<in> set sel \<and> \<not> isna v))"
proof -
  obtain f where f: "apply_filters_loop selections options_map data = Inr f"
    using apply_filters_loop_returns [OF assms(2)] by blast
  have r: "rows f = filter (\<lambda>r. list_all (passes options_map r) selections) (rows data)"
    using apply_filters_loop_rows [OF assms(1) f] by simp
  have m: "\<forall>r \<in> set (rows f). \<forall>(c, sel) \<in> set selections.
              sel \<noteq> [] \<and> set sel \<noteq> set (options_get options_map c) \<and> \<not> list_ex isna sel \<longrightarrow>
              (\<exists>v. map_of r c = Some v \<and> v \<in> set sel \<and> \<not> isna v)"
  proof (intro ballI, clarify)
    fix r c sel
    assume "r \<in> set (rows f)" and e: "(c, sel) \<in> set selections"
      and a: "sel \<noteq> []" "set sel \<noteq> set (options_get options_map c)" and n: "\<not> list_ex isna sel"
    then have "passes options_map r (c, sel)"
      using r by (auto simp: list_all_iff)
    then obtain v where v: "map_of r c = Some v" "v \<in> set sel"
      using a by (auto simp: passes_def split: option.splits)
    moreover have "\<not> isna v" using n v(2) by (auto simp: list_ex_iff)
    ultimately show "\<exists>v. map_of r c = Some v \<and> v \<in> set sel \<and> \<not> isna v" by blast
  qed
  show ?thesis using f r m by (auto simp: apply_filters_def)
qed

theorem apply_filters_keeps_members_witness:
  "wf_frame example_ages \<and>
   set (map fst [(''Age Range'', [Str ''18-24''])]) \<subseteq> set (labels example_ages) \<and>
   (\<exists>f. apply_filters example_ages [(''Age Range'', [Str ''18-24''])]
           [''Age Range'' \<mapsto> [Str ''18-24'', Str ''25-34'']] = Inr f \<and>
        rows f = [[(''ID'', Num 1), (''Age Range'', Str ''18-24'')],
                  [(''ID'', Num 3), (''Age Range'', Str ''18-24'')]])"
proof -
  have w: "wf_frame example_ages"
    by (simp add: wf_frame_def labels_def nrows_def example_ages_def)
  have l: "set (map fst [(''Age Range'', [Str ''18-24''])]) \<subseteq> set (labels example_ages)"
    by (simp add: labels_def example_ages_def)
  obtain f where f: "apply_filters example_ages [(''Age Range'', [Str ''18-24''])]
           [''Age Range'' \<mapsto> [Str ''18-24'', Str ''25-34'']] = Inr f"
    and r: "rows f = filter (\<lambda>r. list_all (passes [''Age Range'' \<mapsto> [Str ''18-24'', Str ''25-34'']] r)
              [(''Age Range'', [Str ''18-24''])]) (rows example_ages)"
    using apply_filters_keeps_members [OF w l] by blast
  have "rows f = [[(''ID'', Num 1), (''Age Range'', Str ''18-24'')],
                  [(''ID'', Num 3), (''Age Range'', Str ''18-24'')]]"
    unfolding r rows_example by (simp add: passes_def options_get_def)
  then show ?thesis using w l f by blast
qed

text \<open>
  C10. \<open>apply_filters\<close> never writes to its argument: the body only rebinds the local
  \<open>filtered\<close>, which starts as a copy, so the model takes the data by value. It
  returns a frame whenever the data has every column of the selection (otherwise
  \<open>filtered[column]\<close> can raise \<open>KeyError\<close>), and every frame it returns has the
  columns of the data, with the same labels and dtypes in the same order, and rows that
  are a subsequence of the rows of the data.
\<close>

theorem apply_filters_frame:
  assumes "wf_frame data"
  shows "(set (map fst selections) \<subseteq> set (labels data) \<longrightarrow>
            (\<exists>f. apply_filters data selections options_map = Inr f)) \<and>
         (\<forall>f. apply_filters data selections options_map = Inr f \<longrightarrow>
            map (\<lambda>(l, s). (l, dtype s)) f = map (\<lambda>(l, s). (l, dtype s)) data \<and>
            subseq (rows f) (rows data))"
proof (intro conjI impI allI)
  assume "set (map fst selections) \<subseteq> set (labels data)"
  then show "\<exists>f. apply_filters data selections options_map = Inr f"
    unfolding apply_filters_def by (rule apply_filters_loop_returns)
next
  fix f
  assume "apply_filters data selections options_map = Inr f"
  then have l: "apply_filters_loop selections options_map data = Inr f"
    by (simp add: apply_filters_def)
  note r = apply_filters_loop_rows [OF assms l]
  have "subseq (filter (\<lambda>r. list_all (passes options_map r) selections) (rows data)) (rows data)"
    by (rule subseq_filter_left)
  then show "map (\<lambda>(l, s). (l, dtype s)) f = map (\<lambda>(l, s). (l, dtype s)) data"
    and "subseq (rows f) (rows data)"
    using r by simp_all
qed

theorem apply_filters_frame_witness:
  "wf_frame example_ages \<and>
   apply_filters example_ages [(''Age Range'', [Str ''25-34''])]
     [''Age Range'' \<mapsto> [Str ''18-24'', Str ''25-34'']] =
     Inr [(''ID'', Series Numeric [Num 2, Num 5]),
          (''Age Range'', Series Object [Str ''25-34'', Str ''25-34''])] \<and>
   map (\<lambda>(l, s). (l, dtype s))
     [(''ID'', Series Numeric [Num 2, Num 5]),
      (''Age Range'', Series Object [Str ''25-34'', Str ''25-34''])] =
   map (\<lambda>(l, s). (l, dtype s)) example_ages \<and>
   subseq (rows [(''ID'', Series Numeric [Num 2, Num 5]),
                 (''Age Range'', Series Object [Str ''25-34'', Str ''25-34''])])
          (rows example_ages)"
proof -
  have w: "wf_frame example_ages"
    by (simp add: wf_frame_def labels_def nrows_def example_ages_def)
  have a: "apply_filters example_ages [(''Age Range'', [Str ''25-34''])]
     [''Age Range'' \<mapsto> [Str ''18-24'', Str ''25-34'']] =
     Inr [(''ID'', Series Numeric [Num 2, Num 5]),
          (''Age Range'', Series Object [Str ''25-34'', Str ''25-34''])]"
    by (simp add: apply_filters_def example_ages_def options_get_def getitem_mask_def
        isin_def kept_def upt_rec)
  from apply_filters_frame [OF w, of "[(''Age Range'', [Str ''25-34''])]"
      "[''Age Range'' \<mapsto> [Str ''18-24'', Str ''25-34'']]"] w a
  show ?thesis by blast
qed

section \<open>Properties of normalisation and redaction\<close>

subsection \<open>Strings\<close>

lemma last_dropWhile: "dropWhile P xs \<noteq> [] \<Longrightarrow> last (dropWhile P xs) = last xs"
  by (induction xs) (auto split: if_splits)

lemma hd_dropWhile_not: "dropWhile P xs \<noteq> [] \<Longrightarrow> \<not> P (hd (dropWhile P xs))"
  by (rule hd_dropWhile)

lemma trimmed_py_strip: "trimmed (py_strip s)"
proof (cases "py_strip s = []")
  case True
  then show ?thesis by (simp add: trimmed_def)
next
  case False
  define a where "a = dropWhile py_isspace s"
  define y where "y = dropWhile py_isspace (rev a)"
  have s: "py_strip s = rev y" by (simp add: py_strip_def a_def y_def)
  have yne: "y \<noteq> []" using False s by simp
  then have ane: "a \<noteq> []" by (auto simp: y_def)
  have "last (rev y) = hd y" using yne by (simp add: last_rev)
  moreover have "\<not> py_isspace (hd y)" using yne unfolding y_def by (rule hd_dropWhile)
  moreover have "hd (rev y) = last y" using yne by (simp add: hd_rev)
  moreover have "last y = last (rev a)" using yne unfolding y_def by (rule last_dropWhile)
  moreover have "last (rev a) = hd a" using ane by (simp add: last_rev)
  moreover have "\<not> py_isspace (hd a)" using ane unfolding a_def by (rule hd_dropWhile)
  ultimately show ?thesis using s by (simp add: trimmed_def)
qed

lemma dropWhile_id: "xs \<noteq> [] \<Longrightarrow> \<not> P (hd xs) \<Longrightarrow> dropWhile P xs = xs"
  by (cases xs) auto

lemma py_strip_trimmed: "trimmed t \<Longrightarrow> py_strip t = t"
proof (cases "t = []")
  case True
  then show ?thesis by (simp add: py_strip_def)
next
  case False
  assume "trimmed t"
  then have h: "\<not> py_isspace (hd t)" and l: "\<not> py_isspace (last t)"
    using False by (simp_all add: trimmed_def)
  have a: "dropWhile py_isspace t = t" using False h by (rule dropWhile_id)
  have "hd (rev t) = last t" using False by (simp add: hd_rev)
  then have "\<not> py_isspace (hd (rev t))" using l by simp
  moreover have "rev t \<noteq> []" using False by simp
  ultimately have b: "dropWhile py_isspace (rev t) = rev t" by (simp add: dropWhile_id)
  show ?thesis by (simp add: py_strip_def a b)
qed

lemma in_set_py_strip: "x \<in> set (py_strip s) \<Longrightarrow> x \<in> set s"
proof -
  assume "x \<in> set (py_strip s)"
  then have "x \<in> set (dropWhile py_isspace (rev (dropWhile py_isspace s)))"
    by (simp add: py_strip_def)
  then have "x \<in> set (rev (dropWhile py_isspace s))" by (rule set_dropWhileD)
  then have "x \<in> set (dropWhile py_isspace s)" by simp
  then show ?thesis by (rule set_dropWhileD)
qed

lemma str_replace_absent: "old \<notin> set s \<Longrightarrow> str_replace old new s = s"
  by (induction s) (auto simp: str_replace_def)

lemma str_replace_removes: "old \<noteq> new \<Longrightarrow> old \<notin> set (str_replace old new s)"
  by (induction s) (auto simp: str_replace_def)

lemma str_replace_keeps_absent: "c \<notin> set s \<Longrightarrow> c \<noteq> new \<Longrightarrow> c \<notin> set (str_replace old new s)"
  by (induction s) (auto simp: str_replace_def)

subsection \<open>Cleaning a column\<close>

lemma clean_string_series_dtype: "dtype (clean_string_series s) = dtype s"
  by (simp add: clean_string_series_def Let_def)

lemma clean_string_series_canonical:
  "dtype s = Object \<Longrightarrow> v \<in> set (vals (clean_string_series s)) \<Longrightarrow> canonical_cell v"
  by (auto simp: clean_string_series_def Let_def canonical_cell_def trimmed_py_strip)

lemma clean_string_series_text:
  assumes "dtype s = Object" and "Str t \<in> set (vals (clean_string_series s))"
  shows "clean_text t"
proof -
  obtain v where t: "t = py_strip (str_replace (CHR 0xA0) (CHR 0x20)
                          (str_replace (CHR 0x0A) (CHR 0x20) (astype_str v)))"
    and n: "t \<noteq> ''nan''" "t \<noteq> []"
    using assms by (auto simp: clean_string_series_def Let_def split: if_splits)
  have a: "CHR 0x0A \<notin> set (str_replace (CHR 0x0A) (CHR 0x20) (astype_str v))"
    by (rule str_replace_removes) simp
  have b: "CHR 0x0A \<notin> set (str_replace (CHR 0xA0) (CHR 0x20)
                          (str_replace (CHR 0x0A) (CHR 0x20) (astype_str v)))"
    using a by (rule str_replace_keeps_absent) simp
  have c: "CHR 0xA0 \<notin> set (str_replace (CHR 0xA0) (CHR 0x20)
                          (str_replace (CHR 0x0A) (CHR 0x20) (astype_str v)))"
    by (rule str_replace_removes) simp
  have "CHR 0x0A \<notin> set t" "CHR 0xA0 \<notin> set t"
    using b c in_set_py_strip unfolding t by blast+
  then show ?thesis using n t by (simp add: clean_text_def trimmed_py_strip)
qed

lemma clean_cell_fixed:
  assumes "clean_text t"
  shows "(let u = py_strip (str_replace (CHR 0xA0) (CHR 0x20)
                          (str_replace (CHR 0x0A) (CHR 0x20) (astype_str (Str t))))
          in if u = ''nan'' \<or> u = [] then NA else Str u) = Str t"
proof -
  have "str_replace (CHR 0x0A) (CHR 0x20) t = t"
    using assms by (simp add: clean_text_def str_replace_absent)
  moreover have "str_replace (CHR 0xA0) (CHR 0x20) t = t"
    using assms by (simp add: clean_text_def str_replace_absent)
  moreover have "py_strip t = t" using assms by (simp add: clean_text_def py_strip_trimmed)
  ultimately show ?thesis using assms by (simp add: astype_str_def clean_text_def)
qed

lemma clean_string_series_idem:
  assumes "dtype s = Object \<longrightarrow> NA \<notin> set (vals (clean_string_series s))"
  shows "clean_string_series (clean_string_series s) = clean_string_series s"
proof (cases "dtype s = Object")
  case False
  then show ?thesis by (simp add: clean_string_series_def)
next
  case True
  define c where "c = clean_string_series s"
  have d: "dtype c = Object" using True by (simp add: c_def clean_string_series_dtype)
  have e: "\<And>v. v \<in> set (vals c) \<Longrightarrow> \<exists>t. v = Str t \<and> clean_text t"
  proof -
    fix v assume v: "v \<in> set (vals c)"
    have "canonical_cell v" using True v unfolding c_def by (rule clean_string_series_canonical)
    moreover have "v \<noteq> NA" using assms True v by (auto simp: c_def)
    ultimately obtain t where t: "v = Str t" by (cases v) (auto simp: canonical_cell_def)
    then have "clean_text t" using clean_string_series_text [OF True] v by (simp add: c_def)
    then show "\<exists>t. v = Str t \<and> clean_text t" using t by simp
  qed
  have "map (\<lambda>v. let u = py_strip (str_replace (CHR 0xA0) (CHR 0x20)
                          (str_replace (CHR 0x0A) (CHR 0x20) (astype_str v)))
          in if u = ''nan'' \<or> u = [] then NA else Str u) (vals c) = vals c"
  proof (rule map_idI)
    fix v assume "v \<in> set (vals c)"
    then obtain t where "v = Str t" "clean_text t" using e by blast
    then show "(let u = py_strip (str_replace (CHR 0xA0) (CHR 0x20)
                          (str_replace (CHR 0x0A) (CHR 0x20) (astype_str v)))
          in if u = ''nan'' \<or> u = [] then NA else Str u) = v"
      using clean_cell_fixed by simp
  qed
  then have "clean_string_series c = Series Object (vals c)"
    using d by (simp add: clean_string_series_def Let_def comp_def)
  also have "\<dots> = c" using d by (cases c) simp
  finally show ?thesis by (simp add: c_def)
qed

subsection \<open>The frame after normalisation\<close>

lemma normalize_Inr:
  "normalize x = Inr y \<Longrightarrow>
     distinct (map (\<lambda>l. py_strip (rename_label l)) (labels x)) \<and>
     y = map (\<lambda>(l, s). (py_strip (rename_label l), clean_string_series s)) x"
  by (auto simp: normalize_def Let_def labels_def comp_def case_prod_unfold split: if_splits)

lemma normalize_returns:
  "(\<exists>y. normalize x = Inr y) = distinct (map (\<lambda>l. py_strip (rename_label l)) (labels x))"
  by (auto simp: normalize_def Let_def labels_def comp_def case_prod_unfold)

lemma redact_subset: "set (redact df) \<subseteq> set df"
  by (auto simp: redact_def Let_def)

lemma redact_no_sensitive: "(l, s) \<in> set (redact df) \<Longrightarrow> l \<notin> set SENSITIVE_COLUMNS"
proof
  assume m: "(l, s) \<in> set (redact df)" and sens: "l \<in> set SENSITIVE_COLUMNS"
  define drop_cols where "drop_cols = filter (\<lambda>col. col \<in> set (labels df)) SENSITIVE_COLUMNS"
  have "(l, s) \<in> set df" using m redact_subset by blast
  then have "l \<in> set (labels df)" by (force simp: labels_def)
  then have d: "l \<in> set drop_cols" using sens by (simp add: drop_cols_def)
  then have "drop_cols \<noteq> []" by auto
  then have "redact df = filter (\<lambda>(l, s). l \<notin> set drop_cols) df"
    by (simp add: redact_def drop_cols_def Let_def)
  then show False using m d by auto
qed

text \<open>
  C6. \<open>load_data\<close> returns a frame exactly when the path exists and the labels are
  distinct after renaming and stripping, whether or not a sensitive column is among
  them. The frame it returns has no column whose label is in the sensitive list, and in
  every object column each cell is \<open>pd.NA\<close> or a trimmed string that is neither empty
  nor \<open>nan\<close>.
\<close>

theorem load_data_canonical:
  "((\<exists>df. load_data src = Inr df) =
      (\<exists>raw. src = Some raw \<and> distinct (map (\<lambda>l. py_strip (rename_label l)) (labels raw)))) \<and>
   (\<forall>df. load_data src = Inr df \<longrightarrow>
      (\<forall>(l, s) \<in> set df.
         l \<notin> set SENSITIVE_COLUMNS \<and>
         (dtype s = Object \<longrightarrow> (\<forall>v \<in> set (vals s). canonical_cell v))))"
proof (intro conjI allI impI)
  show "(\<exists>df. load_data src = Inr df) =
      (\<exists>raw. src = Some raw \<and> distinct (map (\<lambda>l. py_strip (rename_label l)) (labels raw)))"
  proof (cases src)
    case None
    then show ?thesis by (simp add: load_data_def)
  next
    case (Some raw)
    have "(\<exists>df. load_data (Some raw) = Inr df) = (\<exists>y. normalize raw = Inr y)"
      by (auto simp: load_data_def split: sum.splits)
    then show ?thesis using Some normalize_returns [of raw] by simp
  qed
next
  fix df
  assume a: "load_data src = Inr df"
  then obtain raw y where y: "normalize raw = Inr y" and df: "df = redact y"
    by (auto simp: load_data_def split: option.splits sum.splits)
  have ys: "y = map (\<lambda>(l, s). (py_strip (rename_label l), clean_string_series s)) raw"
    using normalize_Inr [OF y] by simp
  show "\<forall>(l, s) \<in> set df.
         l \<notin> set SENSITIVE_COLUMNS \<and>
         (dtype s = Object \<longrightarrow> (\<forall>v \<in> set (vals s). canonical_cell v))"
  proof (clarify, intro conjI impI ballI)
    fix l s assume m: "(l, s) \<in> set df"
    show "l \<notin> set SENSITIVE_COLUMNS" using m df redact_no_sensitive by blast
  next
    fix l s v
    assume m: "(l, s) \<in> set df" and o: "dtype s = Object" and v: "v \<in> set (vals s)"
    have "(l, s) \<in> set y" using m df redact_subset by blast
    then obtain s0 where s: "s = clean_string_series s0" using ys by auto
    have "dtype s0 = Object" using o s by (simp add: clean_string_series_dtype)
    then show "canonical_cell v" using v s clean_string_series_canonical by blast
  qed
qed

theorem load_data_canonical_witness:
  "load_data (Some example_raw) =
     Inr [(''ID'', Series Numeric [Num 1, Num 2, Num 3]),
          (''Sex'', Series Object [Str ''Female'', NA, NA]),
          (''Media Platforms'', Series Object [Str ''Instagram; YouTube'', NA, Str ''7''])] \<and>
   list_all (\<lambda>(l, s). l \<notin> set SENSITIVE_COLUMNS \<and>
               (dtype s = Object \<longrightarrow> list_all canonical_cell (vals s)))
     [(''ID'', Series Numeric [Num 1, Num 2, Num 3]),
      (''Sex'', Series Object [Str ''Female'', NA, NA]),
      (''Media Platforms'', Series Object [Str ''Instagram; YouTube'', NA, Str ''7''])]"
proof -
  have a: "load_data (Some example_raw) =
     Inr [(''ID'', Series Numeric [Num 1, Num 2, Num 3]),
          (''Sex'', Series Object [Str ''Female'', NA, NA]),
          (''Media Platforms'', Series Object [Str ''Instagram; YouTube'', NA, Str ''7''])]"
    by (simp add: load_data_def normalize_def redact_def example_raw_def labels_def
        rename_label_def RENAME_MAP_def SENSITIVE_COLUMNS_def py_strip_def py_isspace_def
        clean_string_series_def str_replace_def astype_str_def str_int_def str_nat.simps Let_def)
  from load_data_canonical [of "Some example_raw"] a show ?thesis
    by (simp add: list_all_iff)
qed

subsection \<open>Normalising twice\<close>

lemma normalize_example_complete:
  "normalize example_complete =
     Inr [(''ID'', Series Numeric [Num 1, Num 2]),
          (''Sex'', Series Object [Str ''Female'', Str ''Male''])]"
  by (simp add: normalize_def example_complete_def labels_def
        rename_label_def RENAME_MAP_def py_strip_def py_isspace_def
        clean_string_series_def str_replace_def astype_str_def Let_def)


text \<open>
  C2, as the specification states it, fails. A missing cell of a text column is written as
  \<open>pd.NA\<close> by the first pass and turned into the text \<open><NA>\<close> by the second; and a
  label that ends in a space is only stripped by the first pass and renamed by the second.
\<close>

theorem normalize_idempotent_counterexample:
  "normalize [(''Sex'', Series Object [Str ''Female'', NaN])] =
     Inr [(''Sex'', Series Object [Str ''Female'', NA])] \<and>
   normalize [(''Sex'', Series Object [Str ''Female'', NA])] =
     Inr [(''Sex'', Series Object [Str ''Female'', Str ''<NA>''])] \<and>
   normalize [(''Sex'', Series Object [Str ''Female'', NA])] \<noteq>
     Inr [(''Sex'', Series Object [Str ''Female'', NA])] \<and>
   normalize example_padded = Inr [(''Start time'', Series Object [Str ''08:00''])] \<and>
   normalize [(''Start time'', Series Object [Str ''08:00''])] =
     Inr [(''Start Time'', Series Object [Str ''08:00''])] \<and>
   normalize [(''Start time'', Series Object [Str ''08:00''])] \<noteq>
     Inr [(''Start time'', Series Object [Str ''08:00''])]"
  by (simp add: normalize_def example_padded_def labels_def
        rename_label_def RENAME_MAP_def py_strip_def py_isspace_def
        clean_string_series_def str_replace_def astype_str_def Let_def)

text \<open>
  C2, as amended. Normalising twice gives the same frame as normalising once when, after
  the first pass, no label is a key of the rename table and no object column holds a
  missing value. Without the first condition the second pass renames a label that the
  first pass only stripped; without the second, \<open>astype(str)\<close> turns \<open>pd.NA\<close> into
  the text \<open><NA>\<close>.
\<close>

theorem normalize_idempotent_when:
  assumes "normalize x = Inr y"
    and "\<forall>l \<in> set (labels y). map_of RENAME_MAP l = None"
    and "\<forall>(l, s) \<in> set y. dtype s = Object \<longrightarrow> NA \<notin> set (vals s)"
  shows "normalize y = Inr y"
proof -
  have ys: "y = map (\<lambda>(l, s). (py_strip (rename_label l), clean_string_series s)) x"
    and d: "distinct (map (\<lambda>l. py_strip (rename_label l)) (labels x))"
    using normalize_Inr [OF assms(1)] by simp_all
  have ly: "labels y = map (\<lambda>l. py_strip (rename_label l)) (labels x)"
    by (simp add: ys labels_def comp_def case_prod_unfold)
  have fixd: "\<And>l s. (l, s) \<in> set y \<Longrightarrow>
      py_strip (rename_label l) = l \<and> clean_string_series s = s"
  proof -
    fix l s assume m: "(l, s) \<in> set y"
    then obtain l0 s0 where l: "l = py_strip (rename_label l0)" and s: "s = clean_string_series s0"
      using ys by auto
    have "l \<in> set (labels y)" using m by (force simp: labels_def)
    then have "rename_label l = l" using assms(2) by (simp add: rename_label_def)
    moreover have "py_strip l = l" unfolding l by (rule py_strip_trimmed) (rule trimmed_py_strip)
    moreover have "dtype s0 = Object \<longrightarrow> NA \<notin> set (vals (clean_string_series s0))"
      using assms(3) m s by (auto simp: clean_string_series_dtype)
    then have "clean_string_series s = s" unfolding s by (rule clean_string_series_idem)
    ultimately show "py_strip (rename_label l) = l \<and> clean_string_series s = s" by simp
  qed
  have m: "map (\<lambda>(l, s). (py_strip (rename_label l), clean_string_series s)) y = y"
    by (rule map_idI) (use fixd in auto)
  have e: "map (\<lambda>l. py_strip (rename_label l)) (labels y) = labels y"
    by (rule map_idI) (use fixd in \<open>auto simp: labels_def\<close>)
  have "distinct (labels y)"
    unfolding ly by (rule d)
  then have dy: "distinct (map (\<lambda>l. py_strip (rename_label l)) (labels y))"
    unfolding e .
  obtain z where z: "normalize y = Inr z" using dy normalize_returns [of y] by blast
  then have "z = map (\<lambda>(l, s). (py_strip (rename_label l), clean_string_series s)) y"
    using normalize_Inr by blast
  then show ?thesis using z m by simp
qed

theorem normalize_idempotent_when_witness:
  "normalize example_complete =
     Inr [(''ID'', Series Numeric [Num 1, Num 2]),
          (''Sex'', Series Object [Str ''Female'', Str ''Male''])] \<and>
   normalize [(''ID'', Series Numeric [Num 1, Num 2]),
              (''Sex'', Series Object [Str ''Female'', Str ''Male''])] =
     Inr [(''ID'', Series Numeric [Num 1, Num 2]),
          (''Sex'', Series Object [Str ''Female'', Str ''Male''])]"
proof -
  have b: "\<forall>l \<in> set (labels [(''ID'', Series Numeric [Num 1, Num 2]),
          (''Sex'', Series Object [Str ''Female'', Str ''Male''])]). map_of RENAME_MAP l = None"
    by (simp add: labels_def RENAME_MAP_def)
  have c: "\<forall>(l, s) \<in> set [(''ID'', Series Numeric [Num 1, Num 2]),
          (''Sex'', Series Object [Str ''Female'', Str ''Male''])].
            dtype s = Object \<longrightarrow> NA \<notin> set (vals s)"
    by simp
  from normalize_idempotent_when [OF normalize_example_complete b c] normalize_example_complete
  show ?thesis by blast
qed



section \<open>Properties of the aggregates\<close>

subsection \<open>Counting\<close>

lemma distinct_py_unique: "distinct (py_unique xs)"
  by (induction xs) auto

lemma dropna_dropna: "dropna (dropna xs) = dropna xs"
  by (simp add: dropna_def)

lemma sum_tally: "sum_list (map snd (tally xs)) = length xs"
proof -
  have "sum_list (map snd (tally xs)) = sum_list (map (count_list xs) (py_unique xs))"
    by (simp add: tally_def comp_def)
  also have "\<dots> = sum (count_list xs) (set (py_unique xs))"
    by (rule sum_list_distinct_conv_sum_set) (rule distinct_py_unique)
  also have "\<dots> = length xs"
    by (simp add: set_py_unique sum_count_set)
  finally show ?thesis .
qed

lemma keys_tally: "map fst (tally xs) = py_unique xs"
  by (simp add: tally_def comp_def)

lemma in_tally: "(k, c) \<in> set (tally xs) \<longleftrightarrow> k \<in> set xs \<and> c = count_list xs k"
  by (auto simp: tally_def set_py_unique)

lemma tally_empty: "tally xs = [] \<longleftrightarrow> xs = []"
  by (cases xs) (simp_all add: tally_def)

lemma sort_values_stable_ok: "sort_values_ok sort_values_stable"
proof -
  have "descending (sort_values_stable t)" for t
  proof -
    have "sorted (map snd (sort_key snd (rev t)))" by (rule sorted_sort_key)
    then have "sorted_wrt (\<lambda>a b. snd a \<le> snd b) (sort_key snd (rev t))"
      by (simp add: sorted_wrt_map)
    then show ?thesis
      by (simp add: descending_def sort_values_stable_def sorted_wrt_rev)
  qed
  then show ?thesis
    by (simp add: sort_values_ok_def sort_values_stable_def)
qed

lemma sort_values_mset: "sort_values_ok sv \<Longrightarrow> mset (sv t) = mset t"
  by (simp add: sort_values_ok_def)

lemma sort_values_set: "sort_values_ok sv \<Longrightarrow> set (sv t) = set t"
  using sort_values_mset [of sv t] by (metis set_mset_mset)

lemma sort_values_descending: "sort_values_ok sv \<Longrightarrow> descending (sv t)"
  by (simp add: sort_values_ok_def)

lemma sort_values_empty: "sort_values_ok sv \<Longrightarrow> sv t = [] \<longleftrightarrow> t = []"
  using sort_values_mset [of sv t] by (metis mset_zero_iff)

lemma sort_values_sum:
  assumes "sort_values_ok sv"
  shows "sum_list (map snd (sv t)) = sum_list (map snd t)"
proof -
  have "mset (map snd (sv t)) = mset (map snd t)"
    using sort_values_mset [OF assms, of t] by (metis mset_map)
  then show ?thesis by (metis sum_mset_sum_list)
qed

lemma sort_values_keys:
  assumes "sort_values_ok sv" "distinct (map fst t)"
  shows "distinct (map fst (sv t))"
proof -
  have "mset (map fst (sv t)) = mset (map fst t)"
    using sort_values_mset [OF assms(1), of t] by (metis mset_map)
  then show ?thesis using assms(2) by (metis mset_eq_imp_distinct_iff)
qed

lemma value_counts_sum:
  "sort_values_ok sv \<Longrightarrow> sum_list (map snd (value_counts sv xs)) = length (dropna xs)"
  by (simp add: value_counts_def sort_values_sum sum_tally)

lemma value_counts_entries:
  "sort_values_ok sv \<Longrightarrow>
     (k, c) \<in> set (value_counts sv xs) \<longleftrightarrow> k \<in> set (dropna xs) \<and> c = count_list (dropna xs) k"
  by (simp add: value_counts_def sort_values_set in_tally)

lemma value_counts_keys:
  "sort_values_ok sv \<Longrightarrow> distinct (map fst (value_counts sv xs))"
  by (simp add: value_counts_def sort_values_keys keys_tally distinct_py_unique)

lemma value_counts_descending:
  "sort_values_ok sv \<Longrightarrow> descending (value_counts sv xs)"
  by (simp add: value_counts_def sort_values_descending)

lemma value_counts_empty:
  "sort_values_ok sv \<Longrightarrow> value_counts sv xs = [] \<longleftrightarrow> dropna xs = []"
  by (simp add: value_counts_def sort_values_empty tally_empty)

lemma descending_unique:
  assumes "mset ys = mset xs" "descending ys" "sorted_wrt (\<lambda>a b. snd b < snd a) xs"
  shows "ys = xs"
  using assms
proof (induction xs arbitrary: ys)
  case Nil
  then show ?case by simp
next
  case (Cons x xs)
  from Cons.prems(1) obtain y ys' where ys: "ys = y # ys'"
    by (cases ys) auto
  have "y = x"
  proof (rule ccontr)
    assume ne: "y \<noteq> x"
    have "y \<in> set (x # xs)" using Cons.prems(1) ys by (metis list.set_intros(1) mset_eq_setD)
    then have "y \<in> set xs" using ne by simp
    then have a: "snd y < snd x" using Cons.prems(3) by simp
    have "x \<in> set ys" using Cons.prems(1) by (metis list.set_intros(1) mset_eq_setD)
    then have "x \<in> set ys'" using ne ys by auto
    then have "snd x \<le> snd y" using Cons.prems(2) ys by (simp add: descending_def)
    then show False using a by simp
  qed
  moreover have "ys' = xs"
  proof (rule Cons.IH)
    show "mset ys' = mset xs" using Cons.prems(1) ys \<open>y = x\<close> by simp
    show "descending ys'" using Cons.prems(2) ys by (simp add: descending_def)
    show "sorted_wrt (\<lambda>a b. snd b < snd a) xs" using Cons.prems(3) by simp
  qed
  ultimately show ?case using ys by simp
qed

subsection \<open>Splitting the multi-valued cells\<close>

lemma py_split_nonempty: "py_split d t \<noteq> []"
  by (cases t) (simp_all split: list.splits)

lemma strip_pieces:
  "dropna (replace_empty (str_strip (map Str ts))) =
     map Str (filter (\<lambda>x. x \<noteq> []) (map py_strip ts))"
  by (induction ts) (simp_all add: dropna_def replace_empty_def str_strip_def isna_def)

lemma dropna_append: "dropna (xs @ ys) = dropna xs @ dropna ys"
  by (simp add: dropna_def)

lemma replace_empty_append: "replace_empty (xs @ ys) = replace_empty xs @ replace_empty ys"
  by (simp add: replace_empty_def)

lemma str_strip_append: "str_strip (xs @ ys) = str_strip xs @ str_strip ys"
  by (simp add: str_strip_def)

lemma exploded_pool:
  "dropna (replace_empty (str_strip (explode (str_split (CHR '';'') (dropna xs))))) =
     map Str (token_pool xs)"
proof (induction xs)
  case Nil
  then show ?case
    by (simp add: dropna_def replace_empty_def str_strip_def explode_def str_split_def
        token_pool_def)
next
  case (Cons v xs)
  have step: "explode (str_split (CHR '';'') (dropna (v # xs))) =
      (case v of Str t \<Rightarrow> map Str (py_split (CHR '';'') t) | Num n \<Rightarrow> [NaN] | _ \<Rightarrow> []) @
      explode (str_split (CHR '';'') (dropna xs))"
    by (cases v) (simp_all add: dropna_def isna_def explode_def str_split_def py_split_nonempty)
  have head: "dropna (replace_empty (str_strip
      (case v of Str t \<Rightarrow> map Str (py_split (CHR '';'') t) | Num n \<Rightarrow> [NaN] | _ \<Rightarrow> []))) =
      map Str (tokens_of v)"
  proof (cases v)
    case (Str t)
    then show ?thesis by (simp add: strip_pieces tokens_of_def)
  qed (simp_all add: dropna_def replace_empty_def str_strip_def isna_def tokens_of_def)
  show ?case
    unfolding step str_strip_append replace_empty_append dropna_append head Cons.IH
    by (simp add: token_pool_def)
qed

lemma is_text_present: "list_ex is_text (dropna xs) = list_ex is_text xs"
  by (induction xs) (auto simp: dropna_def isna_def is_text_def)

lemma explode_keeps_text:
  "list_ex is_text xs \<Longrightarrow> list_ex is_text (dropna (explode (str_split d xs)))"
proof (induction xs)
  case Nil
  then show ?case by simp
next
  case (Cons v xs)
  show ?case
  proof (cases v)
    case (Str t)
    obtain p ps where "py_split d t = p # ps"
      using py_split_nonempty [of d t] by (cases "py_split d t") auto
    then show ?thesis using Str
      by (simp add: explode_def str_split_def dropna_def isna_def is_text_def)
  next
    case NaN
    then show ?thesis using Cons
      by (simp add: explode_def str_split_def dropna_def isna_def is_text_def)
  next
    case NA
    then show ?thesis using Cons
      by (simp add: explode_def str_split_def dropna_def isna_def is_text_def)
  next
    case (Num n)
    then show ?thesis using Cons
      by (simp add: explode_def str_split_def dropna_def isna_def is_text_def)
  qed
qed

text \<open>
  The accessor accepts a series exactly when its dtype is \<open>object\<close> and its values
  that are not missing are none or include a string; then \<open>exploded\<close> is the pool of
  the specification.
\<close>

lemma exploded_accepts:
  assumes "dtype s = Object" "dropna (vals s) = [] \<or> list_ex is_text (vals s)"
  shows "exploded s = Inr (map Str (token_pool (vals s)))"
proof -
  have a: "str_accessor (Series (dtype s) (dropna (vals s))) = Inr (dropna (vals s))"
    using assms by (auto simp: str_accessor_def Let_def dropna_dropna is_text_present)
  have "dropna (explode (str_split (CHR '';'') (dropna (vals s)))) = [] \<or>
        list_ex is_text (dropna (explode (str_split (CHR '';'') (dropna (vals s)))))"
  proof (cases "dropna (vals s) = []")
    case True
    then show ?thesis by (simp add: explode_def str_split_def dropna_def)
  next
    case False
    then have "list_ex is_text (dropna (vals s))" using assms(2) by (simp add: is_text_present)
    then show ?thesis by (simp add: explode_keeps_text)
  qed
  then have b: "str_accessor (Series Object (explode (str_split (CHR '';'') (dropna (vals s))))) =
      Inr (explode (str_split (CHR '';'') (dropna (vals s))))"
    by (auto simp: str_accessor_def Let_def)
  show ?thesis by (simp add: exploded_def a b exploded_pool)
qed

lemma exploded_rejects:
  assumes "\<not> (dtype s = Object \<and> (dropna (vals s) = [] \<or> list_ex is_text (vals s)))"
  shows "exploded s = Inl AttributeError"
  using assms by (auto simp: exploded_def str_accessor_def Let_def dropna_dropna is_text_present)

lemma dropna_map_Str: "dropna (map Str ts) = map Str ts"
  by (induction ts) (simp_all add: dropna_def isna_def)

lemma count_list_map_Str: "count_list (map Str ts) (Str t) = count_list ts t"
  by (induction ts) simp_all

subsection \<open>The single-valued aggregate\<close>

lemma qualifying_cells:
  "dropna (dropna (replace_empty (dropna xs))) = filter (\<lambda>v. \<not> isna v \<and> v \<noteq> Str []) xs"
  by (induction xs) (auto simp: dropna_def replace_empty_def isna_def)

lemma category_counts_sum:
  "sort_values_ok sv \<Longrightarrow>
     sum_list (map snd (category_counts sv s)) =
       length (filter (\<lambda>v. \<not> isna v \<and> v \<noteq> Str []) (vals s))"
  by (simp add: category_counts_def value_counts_sum qualifying_cells)

lemma category_counts_empty:
  "sort_values_ok sv \<Longrightarrow>
     category_counts sv s = [] \<longleftrightarrow> filter (\<lambda>v. \<not> isna v \<and> v \<noteq> Str []) (vals s) = []"
  by (simp add: category_counts_def value_counts_empty qualifying_cells)

lemma no_empty_text:
  "Str [] \<notin> set xs \<Longrightarrow> filter (\<lambda>v. \<not> isna v \<and> v \<noteq> Str []) xs = dropna xs"
  by (induction xs) (auto simp: dropna_def)

lemma load_data_text_column:
  assumes "load_data src = Inr df" "(l, s) \<in> set df" "dtype s = Object"
  shows "Str [] \<notin> set (vals s)"
proof -
  from assms(1) obtain raw y where y: "normalize raw = Inr y" and df: "df = redact y"
    by (auto simp: load_data_def split: option.splits sum.splits)
  have "(l, s) \<in> set y" using assms(2) df redact_subset by blast
  then obtain s0 where s: "s = clean_string_series s0"
    using normalize_Inr [OF y] by auto
  have "dtype s0 = Object" using assms(3) s by (simp add: clean_string_series_dtype)
  then have "\<forall>v \<in> set (vals s). canonical_cell v"
    using s clean_string_series_canonical by blast
  then show ?thesis by (auto simp: canonical_cell_def)
qed

text \<open>
  C7. The counts of the single-valued aggregate add up to the number of cells that are
  neither missing nor the empty string, which the chain drops as well. A column with no
  empty string, as is every text column that \<open>load_data\<close> returns, has as many such
  cells as it has values that are not missing. The table that goes to the chart is this
  aggregate, or nothing when it is empty.
\<close>

theorem category_counts_conservation:
  assumes "sort_values_ok sort_values"
  shows "sum_list (map snd (category_counts sort_values s)) =
           length (filter (\<lambda>v. \<not> isna v \<and> v \<noteq> Str []) (vals s)) \<and>
         (Str [] \<notin> set (vals s) \<longrightarrow>
            sum_list (map snd (category_counts sort_values s)) = length (dropna (vals s))) \<and>
         (\<forall>src df l. load_data src = Inr df \<and> (l, s) \<in> set df \<and> dtype s = Object \<longrightarrow>
            sum_list (map snd (category_counts sort_values s)) = length (dropna (vals s))) \<and>
         (case single_select_chart sort_values s of
            None \<Rightarrow> 0
          | Some counts \<Rightarrow> sum_list (map snd counts)) =
           length (filter (\<lambda>v. \<not> isna v \<and> v \<noteq> Str []) (vals s))"
proof (intro conjI impI allI)
  show a: "sum_list (map snd (category_counts sort_values s)) =
           length (filter (\<lambda>v. \<not> isna v \<and> v \<noteq> Str []) (vals s))"
    using assms by (rule category_counts_sum)
  show "sum_list (map snd (category_counts sort_values s)) = length (dropna (vals s))"
    if "Str [] \<notin> set (vals s)"
    using a that by (simp add: no_empty_text)
  show "sum_list (map snd (category_counts sort_values s)) = length (dropna (vals s))"
    if "load_data src = Inr df \<and> (l, s) \<in> set df \<and> dtype s = Object" for src df l
    using a that load_data_text_column [of src df l s] by (simp add: no_empty_text)
  show "(case single_select_chart sort_values s of
            None \<Rightarrow> 0
          | Some counts \<Rightarrow> sum_list (map snd counts)) =
           length (filter (\<lambda>v. \<not> isna v \<and> v \<noteq> Str []) (vals s))"
    using a category_counts_empty [OF assms, of s]
    by (simp add: single_select_chart_def Let_def)
qed

theorem category_counts_conservation_witness:
  "sort_values_ok sort_values_stable \<and>
   category_counts sort_values_stable
     (Series Object [Str ''18-24'', Str ''25-34'', Str ''18-24'', NA, Str ''25-34'']) =
     [(Str ''18-24'', 2), (Str ''25-34'', 2)] \<and>
   sum_list (map snd (category_counts sort_values_stable
     (Series Object [Str ''18-24'', Str ''25-34'', Str ''18-24'', NA, Str ''25-34'']))) = 4 \<and>
   length (dropna [Str ''18-24'', Str ''25-34'', Str ''18-24'', NA, Str ''25-34'']) = 4"
proof -
  have c: "category_counts sort_values_stable
     (Series Object [Str ''18-24'', Str ''25-34'', Str ''18-24'', NA, Str ''25-34'']) =
     [(Str ''18-24'', 2), (Str ''25-34'', 2)]"
    by (simp add: category_counts_def value_counts_def tally_def dropna_def replace_empty_def
        isna_def sort_values_stable_def)
  from category_counts_conservation [OF sort_values_stable_ok,
      of "Series Object [Str ''18-24'', Str ''25-34'', Str ''18-24'', NA, Str ''25-34'']"]
    sort_values_stable_ok c
  show ?thesis by (simp add: dropna_def isna_def)
qed

subsection \<open>The multi-valued aggregate\<close>

lemma exploded_example_media:
  "exploded example_media =
     Inr [Str ''Instagram'', Str ''YouTube'', Str ''YouTube'', Str ''Instagram'',
          Str ''TikTok'', Str ''YouTube'']"
  by (simp add: exploded_def example_media_def str_accessor_def dropna_def isna_def is_text_def
      explode_def str_split_def str_strip_def replace_empty_def py_strip_def py_isspace_def
      Let_def)

lemma value_counts_example_media:
  assumes "sort_values_ok sv"
  shows "value_counts sv [Str ''Instagram'', Str ''YouTube'', Str ''YouTube'', Str ''Instagram'',
          Str ''TikTok'', Str ''YouTube''] =
         [(Str ''YouTube'', 3), (Str ''Instagram'', 2), (Str ''TikTok'', 1)]"
proof -
  have t: "tally (dropna [Str ''Instagram'', Str ''YouTube'', Str ''YouTube'', Str ''Instagram'',
          Str ''TikTok'', Str ''YouTube'']) =
        [(Str ''Instagram'', 2), (Str ''YouTube'', 3), (Str ''TikTok'', 1)]"
    by (simp add: tally_def dropna_def isna_def)
  show ?thesis
    unfolding value_counts_def t
  proof (rule descending_unique)
    show "mset (sv [(Str ''Instagram'', 2), (Str ''YouTube'', 3), (Str ''TikTok'', 1)]) =
          mset [(Str ''YouTube'', 3), (Str ''Instagram'', 2), (Str ''TikTok'', 1)]"
      by (simp add: sort_values_mset [OF assms])
    show "descending (sv [(Str ''Instagram'', 2), (Str ''YouTube'', 3), (Str ''TikTok'', 1)])"
      by (rule sort_values_descending [OF assms])
    show "sorted_wrt (\<lambda>a b. snd b < snd a)
            [(Str ''YouTube'', 3), (Str ''Instagram'', 2), (Str ''TikTok'', 1::nat)]"
      by simp
  qed
qed

text \<open>
  C5. For a series that the \<open>.str\<close> accessor accepts, the multi-valued aggregate is
  the notice when the pool of trimmed, non-empty pieces is empty, and otherwise a table,
  in descending order of the counts, with exactly one entry for each piece of the pool
  and the number of its occurrences there. On the five rows of the example the table is
  YouTube 3, Instagram 2, TikTok 1 and the summary is \<open>YouTube (3)\<close>.
\<close>

theorem multivalue_chart_counts_pool:
  assumes "sort_values_ok sort_values"
  shows "(dtype s = Object \<and> (dropna (vals s) = [] \<or> list_ex is_text (vals s)) \<longrightarrow>
           (\<exists>table.
              multivalue_chart sort_values s =
                Inr (if token_pool (vals s) = [] then None else Some table) \<and>
              distinct (map fst table) \<and> descending table \<and>
              (\<forall>k c. (k, c) \<in> set table \<longleftrightarrow>
                 (\<exists>t \<in> set (token_pool (vals s)).
                    k = Str t \<and> c = count_list (token_pool (vals s)) t)))) \<and>
         multivalue_chart sort_values example_media =
           Inr (Some [(Str ''YouTube'', 3), (Str ''Instagram'', 2), (Str ''TikTok'', 1)]) \<and>
         summarize_multivalue sort_values example_media = Inr ''YouTube (3)''"
proof (intro conjI impI)
  assume a: "dtype s = Object \<and> (dropna (vals s) = [] \<or> list_ex is_text (vals s))"
  define pool where "pool = token_pool (vals s)"
  define table where "table = value_counts sort_values (map Str pool)"
  have e: "exploded s = Inr (map Str pool)"
    using a by (simp add: exploded_accepts pool_def)
  have "multivalue_chart sort_values s = Inr (if pool = [] then None else Some table)"
    by (simp add: multivalue_chart_def e table_def)
  moreover have "distinct (map fst table)"
    unfolding table_def using assms by (rule value_counts_keys)
  moreover have "descending table"
    unfolding table_def using assms by (rule value_counts_descending)
  moreover have "(k, c) \<in> set table \<longleftrightarrow> (\<exists>t \<in> set pool. k = Str t \<and> c = count_list pool t)"
    for k c
    unfolding table_def value_counts_entries [OF assms] dropna_map_Str
    by (auto simp: count_list_map_Str)
  ultimately show "\<exists>table.
              multivalue_chart sort_values s =
                Inr (if token_pool (vals s) = [] then None else Some table) \<and>
              distinct (map fst table) \<and> descending table \<and>
              (\<forall>k c. (k, c) \<in> set table \<longleftrightarrow>
                 (\<exists>t \<in> set (token_pool (vals s)).
                    k = Str t \<and> c = count_list (token_pool (vals s)) t))"
    unfolding pool_def by blast
next
  show "multivalue_chart sort_values example_media =
           Inr (Some [(Str ''YouTube'', 3), (Str ''Instagram'', 2), (Str ''TikTok'', 1)])"
    by (simp add: multivalue_chart_def exploded_example_media value_counts_example_media [OF assms])
next
  show "summarize_multivalue sort_values example_media = Inr ''YouTube (3)''"
    by (simp add: summarize_multivalue_def exploded_example_media
        value_counts_example_media [OF assms] label_text_def astype_str_def str_nat.simps Let_def)
qed

theorem multivalue_chart_counts_pool_witness:
  "sort_values_ok sort_values_stable \<and>
   dtype example_media = Object \<and> list_ex is_text (vals example_media) \<and>
   token_pool (vals example_media) =
     [''Instagram'', ''YouTube'', ''YouTube'', ''Instagram'', ''TikTok'', ''YouTube''] \<and>
   multivalue_chart sort_values_stable example_media =
     Inr (Some [(Str ''YouTube'', 3), (Str ''Instagram'', 2), (Str ''TikTok'', 1)]) \<and>
   summarize_multivalue sort_values_stable example_media = Inr ''YouTube (3)''"
proof -
  have p: "token_pool (vals example_media) =
     [''Instagram'', ''YouTube'', ''YouTube'', ''Instagram'', ''TikTok'', ''YouTube'']"
    by (simp add: token_pool_def tokens_of_def example_media_def py_strip_def py_isspace_def)
  have q: "dtype example_media = Object \<and> list_ex is_text (vals example_media)"
    by (simp add: example_media_def is_text_def)
  from multivalue_chart_counts_pool [OF sort_values_stable_ok, of example_media]
    sort_values_stable_ok p q
  show ?thesis by simp
qed

subsection \<open>Order of the aggregate table\<close>

text \<open>
  The table is in descending order of the counts for every sort that does what pandas
  documents. The order of entries with equal counts is the sort's: with the stable sort
  they stay in the order in which their values were first seen.
\<close>

lemma category_counts_descending:
  "sort_values_ok sv \<Longrightarrow> descending (category_counts sv s)"
  by (simp add: category_counts_def value_counts_descending)

lemma sort_values_stable_ties:
  "filter (\<lambda>e. snd e = c) (sort_values_stable t) = filter (\<lambda>e. snd e = c) t"
proof -
  have "filter (\<lambda>e. snd e = c) (sort_values_stable t) =
        rev (filter (\<lambda>e. snd e = c) (sort_key snd (rev t)))"
    by (simp add: sort_values_stable_def rev_filter)
  also have "\<dots> = rev (filter (\<lambda>e. snd e = c) (rev t))"
    by (simp only: sort_key_stable [of snd c "rev t"])
  also have "\<dots> = filter (\<lambda>e. snd e = c) t"
    by (simp add: rev_filter)
  finally show ?thesis .
qed

lemma category_counts_stable_ties:
  "map fst (filter (\<lambda>e. snd e = c) (category_counts sort_values_stable s)) =
     filter (\<lambda>k. count_list (filter (\<lambda>v. \<not> isna v \<and> v \<noteq> Str []) (vals s)) k = c)
       (py_unique (filter (\<lambda>v. \<not> isna v \<and> v \<noteq> Str []) (vals s)))"
  by (simp add: category_counts_def value_counts_def sort_values_stable_ties qualifying_cells
      tally_def filter_map comp_def)

subsection \<open>Summaries\<close>

lemma formatted_not_sentinel: "l @ '' ('' @ n @ '')'' \<noteq> ''N/A''"
proof
  assume "l @ '' ('' @ n @ '')'' = ''N/A''"
  then have "last (l @ '' ('' @ n @ '')'') = last ''N/A''" by simp
  then show False by simp
qed

lemma descending_hd:
  "descending t \<Longrightarrow> e \<in> set t \<Longrightarrow> snd e \<le> snd (hd t)"
  by (cases t) (auto simp: descending_def)

lemma value_counts_top:
  assumes "sort_values_ok sv" "dropna xs \<noteq> []"
  shows "fst (hd (value_counts sv xs)) \<in> set (dropna xs) \<and>
         snd (hd (value_counts sv xs)) = count_list (dropna xs) (fst (hd (value_counts sv xs))) \<and>
         (\<forall>k \<in> set (dropna xs). count_list (dropna xs) k \<le> snd (hd (value_counts sv xs)))"
proof -
  have ne: "value_counts sv xs \<noteq> []"
    using assms by (simp add: value_counts_empty)
  then have "hd (value_counts sv xs) \<in> set (value_counts sv xs)" by simp
  then have "(fst (hd (value_counts sv xs)), snd (hd (value_counts sv xs))) \<in> set (value_counts sv xs)"
    by simp
  then have a: "fst (hd (value_counts sv xs)) \<in> set (dropna xs) \<and>
         snd (hd (value_counts sv xs)) = count_list (dropna xs) (fst (hd (value_counts sv xs)))"
    unfolding value_counts_entries [OF assms(1)] .
  have "count_list (dropna xs) k \<le> snd (hd (value_counts sv xs))" if "k \<in> set (dropna xs)" for k
  proof -
    have "(k, count_list (dropna xs) k) \<in> set (value_counts sv xs)"
      using that by (simp add: value_counts_entries [OF assms(1)])
    then show ?thesis
      using descending_hd [OF value_counts_descending [OF assms(1)]] by fastforce
  qed
  then show ?thesis using a by blast
qed

text \<open>
  \<open>summarize_category\<close> returns \<open>N/A\<close> exactly when no cell of the series is left
  after the missing and the empty ones are dropped; otherwise it returns a value with
  the highest count, followed by that count. No such result is the text \<open>N/A\<close>.
\<close>

lemma summarize_category_result:
  assumes "sort_values_ok sv"
  shows "(summarize_category sv s = ''N/A'') =
           (filter (\<lambda>v. \<not> isna v \<and> v \<noteq> Str []) (vals s) = []) \<and>
         (filter (\<lambda>v. \<not> isna v \<and> v \<noteq> Str []) (vals s) \<noteq> [] \<longrightarrow>
            (\<exists>k \<in> set (filter (\<lambda>v. \<not> isna v \<and> v \<noteq> Str []) (vals s)).
               summarize_category sv s =
                 label_text k @ '' ('' @
                   str_nat (count_list (filter (\<lambda>v. \<not> isna v \<and> v \<noteq> Str []) (vals s)) k) @ '')'' \<and>
               (\<forall>k' \<in> set (filter (\<lambda>v. \<not> isna v \<and> v \<noteq> Str []) (vals s)).
                  count_list (filter (\<lambda>v. \<not> isna v \<and> v \<noteq> Str []) (vals s)) k' \<le>
                  count_list (filter (\<lambda>v. \<not> isna v \<and> v \<noteq> Str []) (vals s)) k)))"
proof -
  define q where "q = filter (\<lambda>v. \<not> isna v \<and> v \<noteq> Str []) (vals s)"
  define xs where "xs = dropna (replace_empty (dropna (vals s)))"
  have d: "dropna xs = q" by (simp add: xs_def q_def qualifying_cells)
  have c: "category_counts sv s = value_counts sv xs" by (simp add: category_counts_def xs_def)
  have e: "(value_counts sv xs = []) = (q = [])"
    using assms d by (simp add: value_counts_empty)
  have 1: "(summarize_category sv s = ''N/A'') = (q = [])"
    by (simp add: summarize_category_def c e Let_def formatted_not_sentinel)
  have 2: "\<exists>k \<in> set q. summarize_category sv s = label_text k @ '' ('' @ str_nat (count_list q k) @ '')'' \<and>
               (\<forall>k' \<in> set q. count_list q k' \<le> count_list q k)" if "q \<noteq> []"
  proof -
    from that have "dropna xs \<noteq> []" using d by simp
    note top = value_counts_top [OF assms this, unfolded d]
    have t: "fst (hd (value_counts sv xs)) \<in> set q"
      "snd (hd (value_counts sv xs)) = count_list q (fst (hd (value_counts sv xs)))"
      "\<forall>k \<in> set q. count_list q k \<le> snd (hd (value_counts sv xs))"
      using top by blast+
    have "summarize_category sv s =
        label_text (fst (hd (value_counts sv xs))) @ '' ('' @
          str_nat (count_list q (fst (hd (value_counts sv xs)))) @ '')''"
      using that t(2) by (simp add: summarize_category_def c e Let_def)
    then show ?thesis using t by metis
  qed
  show ?thesis using 1 2 unfolding q_def by blast
qed

text \<open>
  \<open>summarize_multivalue\<close> does the same with the pool of pieces when the \<open>.str\<close>
  accessor accepts the series, and raises \<open>AttributeError\<close> when it does not.
\<close>

lemma summarize_multivalue_result:
  assumes "sort_values_ok sv" "dtype s = Object" "dropna (vals s) = [] \<or> list_ex is_text (vals s)"
  shows "(summarize_multivalue sv s = Inr ''N/A'') = (token_pool (vals s) = []) \<and>
         (token_pool (vals s) \<noteq> [] \<longrightarrow>
            (\<exists>t \<in> set (token_pool (vals s)).
               summarize_multivalue sv s =
                 Inr (t @ '' ('' @ str_nat (count_list (token_pool (vals s)) t) @ '')'') \<and>
               (\<forall>u \<in> set (token_pool (vals s)).
                  count_list (token_pool (vals s)) u \<le> count_list (token_pool (vals s)) t)))"
proof -
  define pool where "pool = token_pool (vals s)"
  have e: "exploded s = Inr (map Str pool)"
    using assms(2,3) by (simp add: exploded_accepts pool_def)
  have 1: "(summarize_multivalue sv s = Inr ''N/A'') = (pool = [])"
    by (simp add: summarize_multivalue_def e Let_def formatted_not_sentinel)
  have 2: "\<exists>t \<in> set pool. summarize_multivalue sv s =
                 Inr (t @ '' ('' @ str_nat (count_list pool t) @ '')'') \<and>
               (\<forall>u \<in> set pool. count_list pool u \<le> count_list pool t)" if "pool \<noteq> []"
  proof -
    from that have "dropna (map Str pool) \<noteq> []" by (simp add: dropna_map_Str)
    note top = value_counts_top [OF assms(1) this, unfolded dropna_map_Str]
    have t: "fst (hd (value_counts sv (map Str pool))) \<in> set (map Str pool)"
      "snd (hd (value_counts sv (map Str pool))) =
         count_list (map Str pool) (fst (hd (value_counts sv (map Str pool))))"
      "\<forall>k \<in> set (map Str pool). count_list (map Str pool) k \<le> snd (hd (value_counts sv (map Str pool)))"
      using top by blast+
    from t(1) obtain w where w: "fst (hd (value_counts sv (map Str pool))) = Str w" "w \<in> set pool"
      by auto
    have c: "snd (hd (value_counts sv (map Str pool))) = count_list pool w"
      using t(2) w(1) by (simp add: count_list_map_Str)
    have "summarize_multivalue sv s = Inr (w @ '' ('' @ str_nat (count_list pool w) @ '')'')"
      using that w(1) c
      by (simp add: summarize_multivalue_def e Let_def label_text_def astype_str_def)
    moreover have "\<forall>u \<in> set pool. count_list pool u \<le> count_list pool w"
    proof
      fix u assume "u \<in> set pool"
      then have "count_list (map Str pool) (Str u) \<le> snd (hd (value_counts sv (map Str pool)))"
        using t(3) by simp
      then show "count_list pool u \<le> count_list pool w"
        using c by (simp add: count_list_map_Str)
    qed
    ultimately show ?thesis using w(2) by blast
  qed
  show ?thesis using 1 2 unfolding pool_def by blast
qed

lemma summarize_multivalue_raises:
  assumes "\<not> (dtype s = Object \<and> (dropna (vals s) = [] \<or> list_ex is_text (vals s)))"
  shows "summarize_multivalue sv s = Inl AttributeError"
  by (simp add: summarize_multivalue_def exploded_rejects [OF assms])

text \<open>
  C9. A question of the export that nobody answered is read as a numeric column of
  \<open>NaN\<close>, which \<open>load_data\<close> leaves as it is. \<open>summarize_multivalue\<close> raises
  \<open>AttributeError\<close> on that column, where \<open>summarize_category\<close> returns \<open>N/A\<close>.
\<close>

theorem summarize_multivalue_blank_column:
  "load_data (Some example_blank) =
     Inr [(''ID'', Series Numeric [Num 1, Num 2]),
          (''Media Platforms'', Series Numeric [NaN, NaN])] \<and>
   summarize_multivalue sort_values (Series Numeric [NaN, NaN]) = Inl AttributeError \<and>
   summarize_category sort_values_stable (Series Numeric [NaN, NaN]) = ''N/A''"
proof (intro conjI)
  show "load_data (Some example_blank) =
     Inr [(''ID'', Series Numeric [Num 1, Num 2]),
          (''Media Platforms'', Series Numeric [NaN, NaN])]"
    by (simp add: load_data_def normalize_def redact_def example_blank_def labels_def
        rename_label_def RENAME_MAP_def SENSITIVE_COLUMNS_def py_strip_def py_isspace_def
        clean_string_series_def Let_def)
  show "summarize_multivalue sort_values (Series Numeric [NaN, NaN]) = Inl AttributeError"
    by (simp add: summarize_multivalue_def exploded_def str_accessor_def Let_def)
  show "summarize_category sort_values_stable (Series Numeric [NaN, NaN]) = ''N/A''"
    by (simp add: summarize_category_def category_counts_def value_counts_def tally_def
        dropna_def replace_empty_def isna_def sort_values_stable_def Let_def)
qed

end
